theory Spec2Isabelle
  imports Main "HOL-Library.Word"
begin

unbundle bit_operations_syntax

section \<open>Assertions (bpl/assert.hpp)\<close>

text \<open>
  \<^verbatim>\<open>BPL_DEBUG_ASSERT\<close> and \<^verbatim>\<open>BPL_ASSERT\<close> end the process when their condition is false.
  The model is the build in which \<^verbatim>\<open>NDEBUG\<close> is not defined, so both kinds of assertion
  run; an abort is the \<open>Inl\<close> branch of a sum type.
\<close>

datatype error = DebugAssertFailed | AssertFailed

type_synonym 'a result = "error + 'a"

type_synonym size_t = "64 word"
type_synonym uintptr_t = "64 word"

section \<open>Bit manipulation (bpl/bit.hpp)\<close>

text \<open>\<^verbatim>\<open>std::has_single_bit\<close>: exactly one bit of \<open>x\<close> is set.\<close>

definition is_pow2 :: "size_t \<Rightarrow> bool" where
  "is_pow2 x = (x \<noteq> 0 \<and> x AND (x - 1) = 0)"

definition align_backward :: "uintptr_t \<Rightarrow> size_t \<Rightarrow> uintptr_t result" where
  "align_backward x alignment =
     (if \<not> is_pow2 alignment then Inl DebugAssertFailed
      else Inr (x AND NOT (alignment - 1)))"

definition align_forward :: "uintptr_t \<Rightarrow> size_t \<Rightarrow> uintptr_t result" where
  "align_forward x alignment =
     (if \<not> is_pow2 alignment then Inl DebugAssertFailed
      else if \<not> (alignment - 1 \<le> - 1 - x) then Inl DebugAssertFailed
      else align_backward (x + (alignment - 1)) alignment)"

section \<open>Memory blocks (bpl/memory.hpp)\<close>

record MemoryBlock =
  ptr :: uintptr_t
  size' :: size_t

text \<open>The value-initialised block \<^verbatim>\<open>{}\<close>: a null pointer and size 0.\<close>

definition empty_block :: MemoryBlock where
  "empty_block = \<lparr>ptr = 0, size' = 0\<rparr>"

section \<open>Arena (bpl/arena.hpp)\<close>

record Arena =
  m_block :: MemoryBlock
  m_end :: uintptr_t

text \<open>
  \<^verbatim>\<open>Arena(size_t capacity)\<close>. The two operating-system calls are declared in os.hpp only;
  what they return is a parameter: \<open>reserved\<close> is the block \<^verbatim>\<open>reserve_memory\<close> hands back,
  \<open>committed\<close> the result of \<^verbatim>\<open>try_commit_memory\<close>.
\<close>

definition Arena_create :: "MemoryBlock \<Rightarrow> bool \<Rightarrow> size_t \<Rightarrow> Arena result" where
  "Arena_create reserved committed capacity =
     (if \<not> capacity > 0 then Inl AssertFailed
      else if \<not> committed then Inl AssertFailed
      else Inr \<lparr>m_block = reserved, m_end = ptr reserved\<rparr>)"

definition push :: "Arena \<Rightarrow> size_t \<Rightarrow> size_t \<Rightarrow> (MemoryBlock \<times> Arena) result" where
  "push A sz alignment =
     (case align_forward (m_end A) alignment of
        Inl e \<Rightarrow> Inl e
      | Inr addr_begin \<Rightarrow>
          (case align_forward (addr_begin + sz) alignment of
             Inl e \<Rightarrow> Inl e
           | Inr addr_end \<Rightarrow>
               if addr_end > ptr (m_block A) + size' (m_block A) then Inr (empty_block, A)
               else Inr (\<lparr>ptr = addr_begin, size' = addr_end - addr_begin\<rparr>,
                         A\<lparr>m_end := addr_end\<rparr>)))"

definition pop :: "Arena \<Rightarrow> MemoryBlock \<Rightarrow> size_t \<Rightarrow> (bool \<times> Arena) result" where
  "pop A block alignment =
     (let block_end = ptr block + size' block in
      case align_forward (m_end A) alignment of
        Inl e \<Rightarrow> Inl e
      | Inr arena_end_aligned \<Rightarrow>
          if block_end \<noteq> arena_end_aligned then Inr (False, A)
          else Inr (True, A\<lparr>m_end := ptr block\<rparr>))"

definition clear :: "Arena \<Rightarrow> Arena" where
  "clear A = A\<lparr>m_end := ptr (m_block A)\<rparr>"

definition try_grow ::
  "Arena \<Rightarrow> MemoryBlock \<Rightarrow> size_t \<Rightarrow> size_t \<Rightarrow> (MemoryBlock \<times> Arena) result" where
  "try_grow A block alignment additional =
     (let block_end = ptr block + size' block; arena_end = m_end A in
      if block_end \<noteq> arena_end then Inr (empty_block, A)
      else case push A additional alignment of
             Inl e \<Rightarrow> Inl e
           | Inr (new_block, A') \<Rightarrow>
               Inr (\<lparr>ptr = ptr block, size' = size' block + size' new_block\<rparr>, A'))"

definition try_shrink ::
  "Arena \<Rightarrow> MemoryBlock \<Rightarrow> size_t \<Rightarrow> size_t \<Rightarrow> (bool \<times> Arena) result" where
  "try_shrink A block alignment new_size =
     (if new_size > size' block then Inr (False, A)
      else pop A \<lparr>ptr = ptr block + new_size, size' = size' block - new_size\<rparr> alignment)"

subsection \<open>Sequences of arena calls\<close>

text \<open>
  \<open>push_all\<close> pushes the sizes \<open>ss\<close> one after the other with one alignment and collects
  the returned blocks, first block first. \<open>pop_all\<close> pops the given blocks in the order of
  the list and stops at the first pop that returns false.
\<close>

fun push_all :: "Arena \<Rightarrow> size_t list \<Rightarrow> size_t \<Rightarrow> (MemoryBlock list \<times> Arena) result" where
  "push_all A [] alignment = Inr ([], A)"
| "push_all A (sz # ss) alignment =
     (case push A sz alignment of
        Inl e \<Rightarrow> Inl e
      | Inr (b, A') \<Rightarrow>
          (case push_all A' ss alignment of
             Inl e \<Rightarrow> Inl e
           | Inr (bs, A'') \<Rightarrow> Inr (b # bs, A'')))"

fun pop_all :: "Arena \<Rightarrow> MemoryBlock list \<Rightarrow> size_t \<Rightarrow> (bool \<times> Arena) result" where
  "pop_all A [] alignment = Inr (True, A)"
| "pop_all A (b # bs) alignment =
     (case pop A b alignment of
        Inl e \<Rightarrow> Inl e
      | Inr (ok, A') \<Rightarrow> if ok then pop_all A' bs alignment else Inr (False, A'))"

datatype arena_call =
    Push size_t size_t
  | Pop MemoryBlock size_t
  | Clear
  | TryGrow MemoryBlock size_t size_t
  | TryShrink MemoryBlock size_t size_t

text \<open>The arena after one call; the call's return value is dropped.\<close>

fun exec :: "Arena \<Rightarrow> arena_call \<Rightarrow> Arena result" where
  "exec A (Push sz alignment) = map_sum id snd (push A sz alignment)"
| "exec A (Pop block alignment) = map_sum id snd (pop A block alignment)"
| "exec A Clear = Inr (clear A)"
| "exec A (TryGrow block alignment additional) =
     map_sum id snd (try_grow A block alignment additional)"
| "exec A (TryShrink block alignment new_size) =
     map_sum id snd (try_shrink A block alignment new_size)"

text \<open>The arena after each call of a sequence; an aborted call ends the sequence.\<close>

fun states :: "Arena \<Rightarrow> arena_call list \<Rightarrow> Arena list" where
  "states A [] = []"
| "states A (c # cs) =
     (case exec A c of Inl e \<Rightarrow> [] | Inr A' \<Rightarrow> A' # states A' cs)"

subsection \<open>Properties the specification names\<close>

text \<open>\<open>base \<le> cursor \<le> base + capacity\<close>, the sum taken in the integers.\<close>

definition arena_inv :: "Arena \<Rightarrow> bool" where
  "arena_inv A =
     (ptr (m_block A) \<le> m_end A
      \<and> unat (m_end A) \<le> unat (ptr (m_block A)) + unat (size' (m_block A)))"

text \<open>The bytes of \<open>b\<close> lie inside the reserved region of the arena.\<close>

definition block_in_region :: "Arena \<Rightarrow> MemoryBlock \<Rightarrow> bool" where
  "block_in_region A b =
     (ptr (m_block A) \<le> ptr b
      \<and> unat (ptr b) + unat (size' b) \<le> unat (ptr (m_block A)) + unat (size' (m_block A)))"

text \<open>
  A block that is not empty, does not wrap around the address space and ends on a multiple
  of the alignment; a list of such blocks, each starting where the one before it ends.
\<close>

definition block_ok :: "size_t \<Rightarrow> MemoryBlock \<Rightarrow> bool" where
  "block_ok a b = (is_pow2 a \<and> size' b \<noteq> 0 \<and> unat (ptr b) + unat (size' b) < 2 ^ 64
      \<and> (ptr b + size' b) AND (a - 1) = 0)"

fun stacked :: "size_t \<Rightarrow> MemoryBlock list \<Rightarrow> bool" where
  "stacked a [] = True"
| "stacked a [b] = block_ok a b"
| "stacked a (b # c # bs) = (block_ok a b \<and> ptr c = ptr b + size' b \<and> stacked a (c # bs))"

text \<open>
  The one addition of \<open>push\<close> that no assertion guards, \<open>addr_begin + size\<close>, does not wrap
  around.
\<close>

definition push_exact :: "Arena \<Rightarrow> size_t \<Rightarrow> size_t \<Rightarrow> bool" where
  "push_exact A sz alignment =
     (case align_forward (m_end A) alignment of
        Inl e \<Rightarrow> True
      | Inr addr_begin \<Rightarrow> unat addr_begin + unat sz < 2 ^ 64)"

fun call_ok :: "Arena \<Rightarrow> arena_call \<Rightarrow> bool" where
  "call_ok A (Push sz alignment) = push_exact A sz alignment"
| "call_ok A (Pop block alignment) = block_in_region A block"
| "call_ok A Clear = True"
| "call_ok A (TryGrow block alignment additional) = push_exact A additional alignment"
| "call_ok A (TryShrink block alignment new_size) = block_in_region A block"

fun calls_ok :: "Arena \<Rightarrow> arena_call list \<Rightarrow> bool" where
  "calls_ok A [] = True"
| "calls_ok A (c # cs) =
     (call_ok A c \<and> (case exec A c of Inl e \<Rightarrow> True | Inr A' \<Rightarrow> calls_ok A' cs))"


section \<open>Objects in memory\<close>

text \<open>
  The array and the helpers of memory.hpp construct, move and destroy objects of a type
  \<open>T\<close> at raw addresses. The store maps the address of every live object to its value; an
  address that holds no constructed object maps to \<open>None\<close>. Of the element type the code
  uses \<^verbatim>\<open>sizeof(T)\<close>, \<^verbatim>\<open>alignof(T)\<close> and the value-initialised object \<^verbatim>\<open>T()\<close>.
\<close>

type_synonym 'a store = "uintptr_t \<Rightarrow> 'a option"

record 'a elem_type =
  sizeof :: size_t
  alignof :: size_t
  value_init :: 'a

section \<open>Math (bpl/math.hpp)\<close>

definition bpl_max :: "size_t \<Rightarrow> size_t \<Rightarrow> size_t" where
  "bpl_max x y = (if y < x then x else y)"

section \<open>Spans (bpl/span.hpp)\<close>

record Bounds =
  start :: size_t
  end' :: "size_t option"
  last' :: "size_t option"
  count' :: "size_t option"

text \<open>A \<^verbatim>\<open>Bounds\<close> with its default member initialisers.\<close>

definition bounds :: Bounds where
  "bounds = \<lparr>start = 0, end' = None, last' = None, count' = None\<rparr>"

record Span =
  m_data :: uintptr_t
  m_count :: size_t

text \<open>\<^verbatim>\<open>Span::operator[](size_t)\<close>: the address of the element at \<open>idx\<close>.\<close>

definition span_at :: "'a elem_type \<Rightarrow> Span \<Rightarrow> size_t \<Rightarrow> uintptr_t result" where
  "span_at T s idx =
     (if \<not> idx < m_count s then Inl DebugAssertFailed
      else Inr (m_data s + idx * sizeof T))"

text \<open>
  \<^verbatim>\<open>Span::operator[](Bounds)\<close>; it checks nothing. The branch for \<^verbatim>\<open>last\<close> reads
  \<^verbatim>\<open>*bounds.end\<close>, not \<^verbatim>\<open>*bounds.last\<close>: the optional is empty when that branch is reached,
  and the count of the span it returns is whatever the read yields, \<open>the (end' b)\<close> here.
\<close>

definition subspan :: "'a elem_type \<Rightarrow> Span \<Rightarrow> Bounds \<Rightarrow> Span" where
  "subspan T s b =
     (case end' b of
        Some e \<Rightarrow> \<lparr>m_data = m_data s + start b * sizeof T, m_count = e - start b\<rparr>
      | None \<Rightarrow>
          (case last' b of
             Some l \<Rightarrow>
               \<lparr>m_data = m_data s + start b * sizeof T, m_count = the (end' b) - start b + 1\<rparr>
           | None \<Rightarrow>
               (case count' b of
                  Some c \<Rightarrow> \<lparr>m_data = m_data s + start b * sizeof T, m_count = c\<rparr>
                | None \<Rightarrow>
                    \<lparr>m_data = m_data s + start b * sizeof T,
                     m_count = m_count s - start b\<rparr>)))"

section \<open>Raw memory helpers (bpl/memory.hpp, bpl/algorithm.hpp)\<close>

text \<open>
  A range-based loop over a span visits \<open>m_count\<close> addresses, \<open>sizeof(T)\<close> apart; the loops
  count the elements that remain. \<^verbatim>\<open>construct\<close> passes the same arguments to every
  constructor call: \<open>v\<close> is the object they build.
\<close>

fun construct_loop ::
  "'a elem_type \<Rightarrow> 'a store \<Rightarrow> uintptr_t \<Rightarrow> nat \<Rightarrow> 'a \<Rightarrow> size_t \<Rightarrow> 'a store \<times> size_t" where
  "construct_loop T h it 0 v count = (h, count)"
| "construct_loop T h it (Suc n) v count =
     construct_loop T (h(it \<mapsto> v)) (it + sizeof T) n v (count + 1)"

definition construct :: "'a elem_type \<Rightarrow> 'a store \<Rightarrow> Span \<Rightarrow> 'a \<Rightarrow> 'a store \<times> size_t" where
  "construct T h r v = construct_loop T h (m_data r) (unat (m_count r)) v 0"

text \<open>\<^verbatim>\<open>fill\<close> assigns \<open>x\<close> to every element of the range.\<close>

fun fill_loop ::
  "'a elem_type \<Rightarrow> 'a store \<Rightarrow> uintptr_t \<Rightarrow> nat \<Rightarrow> 'a \<Rightarrow> size_t \<Rightarrow> 'a store \<times> size_t" where
  "fill_loop T h it 0 x count = (h, count)"
| "fill_loop T h it (Suc n) x count =
     fill_loop T (h(it \<mapsto> x)) (it + sizeof T) n x (count + 1)"

definition fill :: "'a elem_type \<Rightarrow> 'a store \<Rightarrow> Span \<Rightarrow> 'a \<Rightarrow> 'a store \<times> size_t" where
  "fill T h r x = fill_loop T h (m_data r) (unat (m_count r)) x 0"

text \<open>
  \<^verbatim>\<open>relocate\<close>: move-construct at the destination, then destroy the source, until either
  range ends.
\<close>

fun relocate_loop ::
  "'a elem_type \<Rightarrow> 'a store \<Rightarrow> uintptr_t \<Rightarrow> nat \<Rightarrow> uintptr_t \<Rightarrow> nat \<Rightarrow> size_t
     \<Rightarrow> 'a store \<times> size_t" where
  "relocate_loop T h src_it (Suc ns) dst_it (Suc nd) count =
     relocate_loop T ((h(dst_it := h src_it))(src_it := None))
       (src_it + sizeof T) ns (dst_it + sizeof T) nd (count + 1)"
| "relocate_loop T h src_it ns dst_it nd count = (h, count)"

definition relocate :: "'a elem_type \<Rightarrow> 'a store \<Rightarrow> Span \<Rightarrow> Span \<Rightarrow> 'a store \<times> size_t" where
  "relocate T h src dst =
     relocate_loop T h (m_data src) (unat (m_count src)) (m_data dst) (unat (m_count dst)) 0"

text \<open>
  \<^verbatim>\<open>relocate_backward\<close>: the last element of \<open>src\<close> goes to the last slot of \<open>dst\<close>, the one
  before it to the slot before that, and so on. \<open>n\<close> is the number of iterations left and
  \<open>i\<close> the loop variable.
\<close>

fun relocate_backward_loop ::
  "'a elem_type \<Rightarrow> 'a store \<Rightarrow> Span \<Rightarrow> Span \<Rightarrow> size_t \<Rightarrow> size_t \<Rightarrow> size_t \<Rightarrow> nat
     \<Rightarrow> 'a store result" where
  "relocate_backward_loop T h src dst src_index dst_index i 0 = Inr h"
| "relocate_backward_loop T h src dst src_index dst_index i (Suc n) =
     (case span_at T dst (dst_index - i) of
        Inl e \<Rightarrow> Inl e
      | Inr d \<Rightarrow>
          (case span_at T src (src_index - i) of
             Inl e \<Rightarrow> Inl e
           | Inr s \<Rightarrow>
               relocate_backward_loop T ((h(d := h s))(s := None))
                 src dst src_index dst_index (i + 1) n))"

definition relocate_backward ::
  "'a elem_type \<Rightarrow> 'a store \<Rightarrow> Span \<Rightarrow> Span \<Rightarrow> ('a store \<times> size_t) result" where
  "relocate_backward T h src dst =
     (if \<not> m_count src \<le> m_count dst then Inl DebugAssertFailed
      else
        let count = m_count src;
            src_index = m_count src - 1;
            dst_index = m_count dst - 1
        in case relocate_backward_loop T h src dst src_index dst_index 0 (unat count) of
             Inl e \<Rightarrow> Inl e
           | Inr h' \<Rightarrow> Inr (h', count))"

text \<open>\<^verbatim>\<open>destroy_backward\<close>: \<open>i\<close> runs from \<open>size(r)\<close> down to 1 and destroys \<open>r[i - 1]\<close>.\<close>

fun destroy_backward_loop :: "'a elem_type \<Rightarrow> 'a store \<Rightarrow> Span \<Rightarrow> nat \<Rightarrow> 'a store result" where
  "destroy_backward_loop T h r 0 = Inr h"
| "destroy_backward_loop T h r (Suc i) =
     (case span_at T r (of_nat i) of
        Inl e \<Rightarrow> Inl e
      | Inr a \<Rightarrow> destroy_backward_loop T (h(a := None)) r i)"

definition destroy_backward ::
  "'a elem_type \<Rightarrow> 'a store \<Rightarrow> Span \<Rightarrow> ('a store \<times> size_t) result" where
  "destroy_backward T h r =
     (case destroy_backward_loop T h r (unat (m_count r)) of
        Inl e \<Rightarrow> Inl e
      | Inr h' \<Rightarrow> Inr (h', m_count r))"

text \<open>\<^verbatim>\<open>copy\<close>: assign element by element until either range ends.\<close>

fun copy_loop ::
  "'a elem_type \<Rightarrow> 'a store \<Rightarrow> uintptr_t \<Rightarrow> nat \<Rightarrow> uintptr_t \<Rightarrow> nat \<Rightarrow> size_t
     \<Rightarrow> 'a store \<times> size_t" where
  "copy_loop T h src_it (Suc ns) dst_it (Suc nd) count =
     copy_loop T (h(dst_it := h src_it))
       (src_it + sizeof T) ns (dst_it + sizeof T) nd (count + 1)"
| "copy_loop T h src_it ns dst_it nd count = (h, count)"

definition copy :: "'a elem_type \<Rightarrow> 'a store \<Rightarrow> Span \<Rightarrow> Span \<Rightarrow> 'a store \<times> size_t" where
  "copy T h src dst =
     copy_loop T h (m_data src) (unat (m_count src)) (m_data dst) (unat (m_count dst)) 0"

text \<open>
  \<^verbatim>\<open>uninitialized_copy\<close> from a sized range outside the store, given by its elements, into
  a span: one copy-construction per source element.
\<close>

fun uninitialized_copy_loop ::
  "'a elem_type \<Rightarrow> 'a store \<Rightarrow> 'a list \<Rightarrow> uintptr_t \<Rightarrow> size_t \<Rightarrow> 'a store \<times> size_t" where
  "uninitialized_copy_loop T h [] dst_it count = (h, count)"
| "uninitialized_copy_loop T h (x # xs) dst_it count =
     uninitialized_copy_loop T (h(dst_it \<mapsto> x)) xs (dst_it + sizeof T) (count + 1)"

definition uninitialized_copy ::
  "'a elem_type \<Rightarrow> 'a store \<Rightarrow> 'a list \<Rightarrow> Span \<Rightarrow> ('a store \<times> size_t) result" where
  "uninitialized_copy T h src dst =
     (if \<not> (of_nat (length src) :: size_t) \<le> m_count dst then Inl DebugAssertFailed
      else Inr (uninitialized_copy_loop T h src (m_data dst) 0))"

section \<open>The global allocator (bpl/allocator.hpp)\<close>

text \<open>
  \<^verbatim>\<open>GlobalAllocator::allocate\<close>; \<open>p\<close> is the pointer \<^verbatim>\<open>std::aligned_alloc\<close> returns.
  \<^verbatim>\<open>sizeof(void*)\<close> is 8.
\<close>

definition allocate :: "uintptr_t \<Rightarrow> size_t \<Rightarrow> size_t \<Rightarrow> MemoryBlock result" where
  "allocate p sz alignment =
     (if \<not> alignment mod 2 = 0 then Inl DebugAssertFailed
      else
        let alignment = bpl_max 8 alignment in
        case align_forward sz alignment of
          Inl e \<Rightarrow> Inl e
        | Inr aligned_size \<Rightarrow>
            if \<not> p \<noteq> 0 then Inl AssertFailed
            else Inr \<lparr>ptr = p, size' = aligned_size\<rparr>)"

text \<open>
  \<^verbatim>\<open>GlobalAllocator::deallocate\<close> frees the block: whatever objects were left in its bytes
  are gone with it. No destructor runs.
\<close>

definition deallocate :: "'a store \<Rightarrow> MemoryBlock \<Rightarrow> size_t \<Rightarrow> 'a store" where
  "deallocate h block alignment = (\<lambda>a. if a - ptr block < size' block then None else h a)"

section \<open>Array (bpl/array.hpp)\<close>

text \<open>
  \<^verbatim>\<open>Array<T, GlobalAllocator>\<close>. The allocator has no state. Every operation takes the
  store and the array and returns both; an operation that may allocate also takes the
  pointer \<open>p\<close> that the allocation returns if it happens.
\<close>

record Array =
  m_block' :: MemoryBlock
  m_count' :: size_t

text \<open>\<^verbatim>\<open>Array()\<close>.\<close>

definition Array_default :: Array where
  "Array_default = \<lparr>m_block' = empty_block, m_count' = 0\<rparr>"

definition data :: "Array \<Rightarrow> uintptr_t" where
  "data arr = ptr (m_block' arr)"

definition size_of :: "Array \<Rightarrow> size_t" where
  "size_of arr = m_count' arr"

definition capacity :: "'a elem_type \<Rightarrow> Array \<Rightarrow> size_t" where
  "capacity T arr = size' (m_block' arr) div sizeof T"

definition alignment_of :: "'a elem_type \<Rightarrow> Array \<Rightarrow> size_t" where
  "alignment_of T arr = alignof T"

definition end_of :: "'a elem_type \<Rightarrow> Array \<Rightarrow> uintptr_t" where
  "end_of T arr = data arr + size_of arr * sizeof T"

text \<open>\<^verbatim>\<open>Span(*this)\<close> and \<^verbatim>\<open>as_raw_span()\<close>.\<close>

definition as_span :: "Array \<Rightarrow> Span" where
  "as_span arr = \<lparr>m_data = data arr, m_count = size_of arr\<rparr>"

definition as_raw_span :: "'a elem_type \<Rightarrow> Array \<Rightarrow> Span" where
  "as_raw_span T arr = \<lparr>m_data = data arr, m_count = capacity T arr\<rparr>"

definition allocate_amortized :: "'a elem_type \<Rightarrow> uintptr_t \<Rightarrow> Array \<Rightarrow> size_t \<Rightarrow> MemoryBlock result" where
  "allocate_amortized T p arr count =
     (if \<not> count \<le> (- 1) div sizeof T then Inl DebugAssertFailed
      else
        let bytes = count * sizeof T;
            bytes = (if bytes \<ge> (- 1) div 2 then - 1
                     else bpl_max (capacity T arr * sizeof T * 2) bytes)
        in allocate p bytes (alignment_of T arr))"

fun Array_deallocate :: "'a elem_type \<Rightarrow> 'a store \<times> Array \<Rightarrow> 'a store \<times> Array" where
  "Array_deallocate T (h, arr) =
     (if data arr \<noteq> 0
     then (deallocate h (m_block' arr) (alignment_of T arr), arr\<lparr>m_block' := empty_block\<rparr>)
     else (h, arr))"

fun reserve ::
  "'a elem_type \<Rightarrow> uintptr_t \<Rightarrow> 'a store \<times> Array \<Rightarrow> size_t \<Rightarrow> ('a store \<times> Array) result" where
  "reserve T p (h, arr) count =
     (if count \<le> capacity T arr then Inr (h, arr)
     else
       case allocate p (count * sizeof T) (alignment_of T arr) of
         Inl e \<Rightarrow> Inl e
       | Inr new_block \<Rightarrow>
           let (h1, n) = relocate T h (as_span arr)
                           \<lparr>m_data = ptr new_block, m_count = size' new_block div sizeof T\<rparr>;
               h2 = deallocate h1 (m_block' arr) (alignment_of T arr)
           in Inr (h2, arr\<lparr>m_block' := new_block\<rparr>))"

fun Array_clear :: "'a elem_type \<Rightarrow> 'a store \<times> Array \<Rightarrow> ('a store \<times> Array) result" where
  "Array_clear T (h, arr) =
     (case destroy_backward T h (as_span arr) of
       Inl e \<Rightarrow> Inl e
     | Inr (h', n) \<Rightarrow> Inr (h', arr\<lparr>m_count' := 0\<rparr>))"

text \<open>\<^verbatim>\<open>Array(uninit_t, A&& allocator, size_t count)\<close>.\<close>

definition Array_uninit :: "'a elem_type \<Rightarrow> uintptr_t \<Rightarrow> size_t \<Rightarrow> Array result" where
  "Array_uninit T p count =
     (if count = 0 then Inr Array_default
      else
        case allocate p (count * sizeof T) (alignof T) of
          Inl e \<Rightarrow> Inl e
        | Inr b \<Rightarrow> Inr \<lparr>m_block' = b, m_count' = count\<rparr>)"

text \<open>
  \<^verbatim>\<open>operator=(Array&& other)\<close> for an \<open>other\<close> that is another object than \<^verbatim>\<open>*this\<close>: the
  result is the store, the array assigned to and the array moved from.
\<close>

definition move_assign ::
  "'a elem_type \<Rightarrow> 'a store \<times> Array \<Rightarrow> Array \<Rightarrow> ('a store \<times> Array \<times> Array) result" where
  "move_assign T s other =
     (case Array_clear T s of
        Inl e \<Rightarrow> Inl e
      | Inr s1 \<Rightarrow>
          (case Array_deallocate T s1 of (h2, arr2) \<Rightarrow>
             Inr (h2,
                  arr2\<lparr>m_block' := m_block' other, m_count' := m_count' other\<rparr>,
                  other\<lparr>m_block' := empty_block, m_count' := 0\<rparr>)))"

text \<open>
  \<^verbatim>\<open>operator=(Array&& other)\<close> for \<open>other\<close> being \<^verbatim>\<open>*this\<close> itself: the two
  \<^verbatim>\<open>std::exchange\<close> calls read the members that \<open>clear\<close> and \<open>deallocate\<close> have just
  reset, write the empty values and then write back what they read.
\<close>

definition move_assign_self ::
  "'a elem_type \<Rightarrow> 'a store \<times> Array \<Rightarrow> ('a store \<times> Array) result" where
  "move_assign_self T s =
     (case Array_clear T s of
        Inl e \<Rightarrow> Inl e
      | Inr s1 \<Rightarrow>
          (case Array_deallocate T s1 of (h2, arr2) \<Rightarrow>
             let old_block = m_block' arr2;
                 arr3 = arr2\<lparr>m_block' := empty_block\<rparr>;
                 arr4 = arr3\<lparr>m_block' := old_block\<rparr>;
                 old_count = m_count' arr4;
                 arr5 = arr4\<lparr>m_count' := 0\<rparr>;
                 arr6 = arr5\<lparr>m_count' := old_count\<rparr>
             in Inr (h2, arr6)))"

text \<open>
  \<^verbatim>\<open>Array(Array&& other)\<close>: the members of the new array start from their default
  initialisers, then the body is that of the move assignment.
\<close>

definition move_construct ::
  "'a elem_type \<Rightarrow> 'a store \<Rightarrow> Array \<Rightarrow> ('a store \<times> Array \<times> Array) result" where
  "move_construct T h other = move_assign T (h, Array_default) other"

definition resize ::
  "'a elem_type \<Rightarrow> uintptr_t \<Rightarrow> 'a store \<times> Array \<Rightarrow> size_t \<Rightarrow> 'a
     \<Rightarrow> ('a store \<times> Array) result" where
  "resize T p s count v =
     (if count > size_of (snd s) then
        (case (if count > capacity T (snd s) then reserve T p s count else Inr s) of
           Inl e \<Rightarrow> Inl e
         | Inr (h, arr) \<Rightarrow>
             let r = subspan T (as_raw_span T arr)
                       (bounds\<lparr>start := size_of arr, end' := Some count\<rparr>);
                 (h', n) = construct T h r v
             in Inr (h', arr\<lparr>m_count' := count\<rparr>))
      else if count < size_of (snd s) then
        (case destroy_backward T (fst s)
                (subspan T (as_span (snd s)) (bounds\<lparr>start := count\<rparr>)) of
           Inl e \<Rightarrow> Inl e
         | Inr (h', n) \<Rightarrow> Inr (h', (snd s)\<lparr>m_count' := count\<rparr>))
      else Inr (fst s, (snd s)\<lparr>m_count' := count\<rparr>))"

fun assign ::
  "'a elem_type \<Rightarrow> uintptr_t \<Rightarrow> 'a store \<times> Array \<Rightarrow> size_t \<Rightarrow> 'a
     \<Rightarrow> ('a store \<times> Array) result" where
  "assign T p (h, arr) count x =
     (if count \<le> capacity T arr then
       (if count \<le> size_of arr then
          (let r = subspan T (as_span arr) (bounds\<lparr>count' := Some count\<rparr>);
               (h', n) = fill T h r x
           in Inr (h', arr\<lparr>m_count' := count\<rparr>))
        else
          (let (h1, n) = fill T h (as_span arr) x;
               r = subspan T (as_raw_span T arr)
                     (bounds\<lparr>start := size_of arr, end' := Some count\<rparr>);
               (h2, m) = construct T h1 r (value_init T)
           in Inr (h2, arr\<lparr>m_count' := count\<rparr>)))
     else
       (case Array_uninit T p count of
          Inl e \<Rightarrow> Inl e
        | Inr fresh \<Rightarrow>
            (case move_assign T (h, arr) fresh of
               Inl e \<Rightarrow> Inl e
             | Inr (h1, arr1, moved_from) \<Rightarrow>
                 let r = subspan T (as_span arr1) (bounds\<lparr>count' := Some count\<rparr>);
                     (h2, n) = construct T h1 r x
                 in Inr (h2, arr1\<lparr>m_count' := count\<rparr>))))"

definition append' ::
  "'a elem_type \<Rightarrow> uintptr_t \<Rightarrow> 'a store \<times> Array \<Rightarrow> 'a \<Rightarrow> ('a store \<times> Array) result" where
  "append' T p s v =
     (case reserve T p s (size_of (snd s) + 1) of
        Inl e \<Rightarrow> Inl e
      | Inr (h, arr) \<Rightarrow>
          Inr (h(end_of T arr \<mapsto> v), arr\<lparr>m_count' := m_count' arr + 1\<rparr>))"

definition append_n ::
  "'a elem_type \<Rightarrow> uintptr_t \<Rightarrow> 'a store \<times> Array \<Rightarrow> size_t \<Rightarrow> 'a
     \<Rightarrow> ('a store \<times> Array) result" where
  "append_n T p s n v =
     (case reserve T p s (size_of (snd s) + n) of
        Inl e \<Rightarrow> Inl e
      | Inr (h, arr) \<Rightarrow>
          let r = subspan T (as_raw_span T arr)
                    (bounds\<lparr>start := size_of arr, count' := Some n\<rparr>);
              (h', k) = construct T h r v
          in Inr (h', arr\<lparr>m_count' := m_count' arr + k\<rparr>))"

definition insert' ::
  "'a elem_type \<Rightarrow> uintptr_t \<Rightarrow> 'a store \<times> Array \<Rightarrow> size_t \<Rightarrow> 'a
     \<Rightarrow> ('a store \<times> Array) result" where
  "insert' T p s i v =
     (case reserve T p s (size_of (snd s) + 1) of
        Inl e \<Rightarrow> Inl e
      | Inr (h, arr) \<Rightarrow>
          (case relocate_backward T h
                  (subspan T (as_span arr) (bounds\<lparr>start := i\<rparr>))
                  (subspan T (as_raw_span T arr) (bounds\<lparr>start := size_of arr + 1\<rparr>)) of
             Inl e \<Rightarrow> Inl e
           | Inr (h1, n) \<Rightarrow>
               Inr (h1(data arr + i * sizeof T \<mapsto> v),
                    arr\<lparr>m_count' := m_count' arr + 1\<rparr>)))"

definition insert_range ::
  "'a elem_type \<Rightarrow> uintptr_t \<Rightarrow> 'a store \<times> Array \<Rightarrow> size_t \<Rightarrow> 'a list
     \<Rightarrow> ('a store \<times> Array) result" where
  "insert_range T p s idx rng =
     (if (of_nat (length rng) :: size_t) = 0 then Inr s
      else
        case reserve T p s (size_of (snd s) + of_nat (length rng)) of
          Inl e \<Rightarrow> Inl e
        | Inr (h, arr) \<Rightarrow>
            (case relocate_backward T h
                    (subspan T (as_span arr) (bounds\<lparr>start := idx\<rparr>))
                    (subspan T (as_raw_span T arr)
                       (bounds\<lparr>end' := Some (size_of arr + of_nat (length rng))\<rparr>)) of
               Inl e \<Rightarrow> Inl e
             | Inr (h1, n) \<Rightarrow>
                 (case uninitialized_copy T h1 rng
                         (subspan T (as_raw_span T arr) (bounds\<lparr>start := idx\<rparr>)) of
                    Inl e \<Rightarrow> Inl e
                  | Inr (h2, k) \<Rightarrow> Inr (h2, arr\<lparr>m_count' := m_count' arr + k\<rparr>))))"

text \<open>\<^verbatim>\<open>remove(size_t idx)\<close> also returns the element it took out.\<close>

fun remove ::
  "'a elem_type \<Rightarrow> 'a store \<times> Array \<Rightarrow> size_t \<Rightarrow> ('a option \<times> 'a store \<times> Array) result" where
  "remove T (h, arr) idx =
     (if \<not> idx < size_of arr then Inl AssertFailed
     else
       case span_at T (as_span arr) idx of
         Inl e \<Rightarrow> Inl e
       | Inr a \<Rightarrow>
           let x = h a;
               h1 = h(a := None);
               (h2, n) = copy T h1
                           (subspan T (as_span arr) (bounds\<lparr>start := idx + 1\<rparr>))
                           (subspan T (as_span arr) (bounds\<lparr>start := idx\<rparr>))
           in Inr (x, h2, arr\<lparr>m_count' := m_count' arr - 1\<rparr>))"

text \<open>\<^verbatim>\<open>remove(size_t start, size_t end)\<close>.\<close>

fun remove_range ::
  "'a elem_type \<Rightarrow> 'a store \<times> Array \<Rightarrow> size_t \<Rightarrow> size_t \<Rightarrow> ('a store \<times> Array) result" where
  "remove_range T (h, arr) start_idx end_idx =
     (if \<not> start_idx \<le> size_of arr then Inl DebugAssertFailed
     else if \<not> end_idx \<le> size_of arr then Inl DebugAssertFailed
     else if \<not> end_idx - start_idx \<le> size_of arr then Inl DebugAssertFailed
     else
       case destroy_backward T h
              (subspan T (as_span arr) (bounds\<lparr>start := start_idx, end' := Some end_idx\<rparr>)) of
         Inl e \<Rightarrow> Inl e
       | Inr (h1, n) \<Rightarrow>
           let (h2, k) = copy T h1
                           (subspan T (as_span arr) (bounds\<lparr>start := end_idx\<rparr>))
                           (subspan T (as_span arr) (bounds\<lparr>start := start_idx\<rparr>))
           in Inr (h2, arr\<lparr>m_count' := m_count' arr - (end_idx - start_idx)\<rparr>))"

subsection \<open>Sequences of array calls\<close>

text \<open>
  The mutators of the array, each with the pointer its allocation returns if it allocates.
\<close>

datatype 'a array_call =
    Reserve uintptr_t size_t
  | Append uintptr_t 'a
  | AppendN uintptr_t size_t 'a
  | Resize uintptr_t size_t 'a
  | Assign uintptr_t size_t 'a
  | Insert uintptr_t size_t 'a
  | InsertRange uintptr_t size_t "'a list"
  | Remove size_t
  | RemoveRange size_t size_t

fun array_exec ::
  "'a elem_type \<Rightarrow> 'a store \<times> Array \<Rightarrow> 'a array_call \<Rightarrow> ('a store \<times> Array) result" where
  "array_exec T s (Reserve p count) = reserve T p s count"
| "array_exec T s (Append p v) = append' T p s v"
| "array_exec T s (AppendN p n v) = append_n T p s n v"
| "array_exec T s (Resize p count v) = resize T p s count v"
| "array_exec T s (Assign p count x) = assign T p s count x"
| "array_exec T s (Insert p i v) = insert' T p s i v"
| "array_exec T s (InsertRange p idx rng) = insert_range T p s idx rng"
| "array_exec T s (Remove idx) = map_sum id snd (remove T s idx)"
| "array_exec T s (RemoveRange start_idx end_idx) = remove_range T s start_idx end_idx"

fun array_run ::
  "'a elem_type \<Rightarrow> 'a store \<times> Array \<Rightarrow> 'a array_call list \<Rightarrow> ('a store \<times> Array) result" where
  "array_run T s [] = Inr s"
| "array_run T s (c # cs) =
     (case array_exec T s c of Inl e \<Rightarrow> Inl e | Inr s' \<Rightarrow> array_run T s' cs)"

subsection \<open>What an observer of the array sees\<close>

text \<open>
  The slots at the indices below \<open>size()\<close>, in order: \<open>Some v\<close> for a live element of value
  \<open>v\<close>, \<open>None\<close> for a slot that holds no constructed object.
\<close>

fun elements :: "'a elem_type \<Rightarrow> 'a store \<times> Array \<Rightarrow> 'a option list" where
  "elements T (h, arr) =
     (map (\<lambda>i. h (data arr + of_nat i * sizeof T)) [0..<unat (size_of arr)])"

text \<open>\<open>size() \<le> capacity()\<close>, and every index below \<open>size()\<close> denotes a live element.\<close>

definition array_inv :: "'a elem_type \<Rightarrow> 'a store \<times> Array \<Rightarrow> bool" where
  "array_inv T s =
     (size_of (snd s) \<le> capacity T (snd s) \<and> list_all (\<lambda>x. x \<noteq> None) (elements T s))"

text \<open>\<^verbatim>\<open>int\<close>: four bytes, aligned to four, value-initialised to 0.\<close>

definition int_type :: "32 word elem_type" where
  "int_type = \<lparr>sizeof = 4, alignof = 4, value_init = 0\<rparr>"

section \<open>Facts about alignment\<close>

lemma is_pow2_nonzero: "is_pow2 a \<Longrightarrow> a \<noteq> 0"
  by (simp add: is_pow2_def)

lemma align_forward_Inr:
  "align_forward x a = Inr y \<longleftrightarrow>
     is_pow2 a \<and> a - 1 \<le> - 1 - x \<and> y = (x + (a - 1)) AND NOT (a - 1)"
  by (auto simp: align_forward_def align_backward_def)

lemma and_not_mask_split:
  fixes y m :: "64 word"
  shows "(y AND m) + (y AND NOT m) = y"
proof -
  have "(y AND m) + (y AND NOT m) = (y AND m) OR (y AND NOT m)"
    by (rule disjunctive_add_eq_or) (simp add: bit_eq_iff bit_simps)
  also have "\<dots> = y"
    by (auto simp add: bit_eq_iff bit_simps)
  finally show ?thesis .
qed

lemma round_up_ge:
  fixes x m :: "64 word"
  assumes "unat x + unat m < 2 ^ 64"
  shows "x \<le> (x + m) AND NOT m"
proof -
  let ?y = "x + m"
  have y: "unat ?y = unat x + unat m"
    using assms by (simp add: unat_add_lem [THEN iffD1])
  have le: "unat (?y AND m) \<le> unat m"
    by (rule word_and_le1 [THEN word_le_nat_alt [THEN iffD1]])
  have le2: "?y AND m \<le> ?y"
    by (rule word_and_le2)
  have "?y AND NOT m = ?y - (?y AND m)"
    using and_not_mask_split [of ?y m] by (metis add_diff_cancel_left')
  then have "unat (?y AND NOT m) = unat ?y - unat (?y AND m)"
    using le2 by (simp add: unat_sub)
  then show ?thesis
    using y le by (simp add: word_le_nat_alt)
qed

lemma round_up_aligned:
  fixes y m :: "64 word"
  shows "(y AND NOT m) AND m = 0"
  by (simp add: bit_eq_iff bit_simps)

lemma round_up_idem:
  fixes z m :: "64 word"
  assumes "z AND m = 0"
  shows "(z + m) AND NOT m = z"
proof -
  have "z + m = z OR m"
    using assms by (rule disjunctive_add_eq_or)
  moreover have "(z OR m) AND NOT m = z AND NOT m"
    by (auto simp add: bit_eq_iff bit_simps)
  moreover have "z AND NOT m = z"
    using and_not_mask_split [of z m] assms by simp
  ultimately show ?thesis by simp
qed

lemma assert_bound_iff:
  fixes x m :: "64 word"
  shows "m \<le> - 1 - x \<longleftrightarrow> unat x + unat m < 2 ^ 64"
proof -
  have "x \<le> - 1"
    by simp
  then have "unat (- 1 - x) = unat (- 1 :: 64 word) - unat x"
    by (rule unat_sub)
  moreover have "unat (- 1 :: 64 word) = 2 ^ 64 - 1"
    by (simp add: unsigned_minus_1_eq_mask mask_eq_exp_minus_1)
  ultimately have "unat (- 1 - x) = 2 ^ 64 - 1 - unat x"
    by simp
  then show ?thesis
    using unsigned_less [of x, where ?'a = nat] by (auto simp: word_le_nat_alt)
qed

section \<open>Arena: shrinking in place\<close>

text \<open>
  Claim C9. For every arena, block and \<open>new_size \<le> block.size\<close>, \<open>try_shrink\<close> is the pop of
  the trailing \<open>block.size - new_size\<close> bytes of the block: whenever the cursor can be
  aligned (\<open>top\<close> is the aligned cursor), the call returns true and rewinds the cursor to
  \<open>block.ptr + new_size\<close> if the trailing region ends at \<open>top\<close>, and otherwise returns
  false and leaves the arena as it was.
\<close>

theorem try_shrink_is_pop_of_tail:
  "new_size \<le> size' block \<Longrightarrow>
     try_shrink A block alignment new_size =
       pop A \<lparr>ptr = ptr block + new_size, size' = size' block - new_size\<rparr> alignment
     \<and> (\<forall>top. align_forward (m_end A) alignment = Inr top \<longrightarrow>
          try_shrink A block alignment new_size =
            (if (ptr block + new_size) + (size' block - new_size) = top
             then Inr (True, A\<lparr>m_end := ptr block + new_size\<rparr>)
             else Inr (False, A)))"
  by (auto simp: try_shrink_def pop_def Let_def)

theorem try_shrink_is_pop_of_tail_witness:
  "(16 :: size_t) \<le> size' \<lparr>ptr = 0x1000, size' = 32\<rparr>
   \<and> align_forward (m_end \<lparr>m_block = \<lparr>ptr = 0x1000, size' = 64\<rparr>, m_end = 0x1020\<rparr>) 8 = Inr 0x1020
   \<and> try_shrink \<lparr>m_block = \<lparr>ptr = 0x1000, size' = 64\<rparr>, m_end = 0x1020\<rparr>
        \<lparr>ptr = 0x1000, size' = 32\<rparr> 8 16
      = Inr (True, \<lparr>m_block = \<lparr>ptr = 0x1000, size' = 64\<rparr>, m_end = 0x1010\<rparr>)"
proof -
  have h: "(16 :: size_t) \<le> size' \<lparr>ptr = 0x1000, size' = 32\<rparr>"
    by simp
  have t: "align_forward (m_end \<lparr>m_block = \<lparr>ptr = 0x1000, size' = 64\<rparr>, m_end = 0x1020\<rparr>) 8
             = Inr 0x1020"
    by (simp add: align_forward_def align_backward_def is_pow2_def)
  show ?thesis
    using h t
      try_shrink_is_pop_of_tail [OF h,
        of "\<lparr>m_block = \<lparr>ptr = 0x1000, size' = 64\<rparr>, m_end = 0x1020\<rparr>" 8]
    by auto
qed

text \<open>
  Beyond the precondition the code does not assert: a \<open>new_size\<close> above the block's size
  makes \<open>try_shrink\<close> return false with the arena unchanged.
\<close>

lemma try_shrink_beyond_size:
  "new_size > size' block \<Longrightarrow> try_shrink A block alignment new_size = Inr (False, A)"
  by (simp add: try_shrink_def)

section \<open>Arena: growing in place\<close>

lemma push_no_room:
  "push \<lparr>m_block = \<lparr>ptr = 0x1000, size' = 64\<rparr>, m_end = 0x1010\<rparr> 1000 8
     = Inr (empty_block, \<lparr>m_block = \<lparr>ptr = 0x1000, size' = 64\<rparr>, m_end = 0x1010\<rparr>)"
  by (simp add: push_def align_forward_def align_backward_def is_pow2_def)

text \<open>
  Claim C8. \<open>try_grow\<close> should return an empty block (size 0) whenever it cannot extend the
  block in place. In an arena of 64 bytes whose top block is the 16 bytes at its base, a
  request for 1000 more bytes finds no room: \<open>push\<close> returns the empty block, and \<open>try_grow\<close>
  returns the caller's block with its old size of 16 and leaves the arena as it was. A block
  that is not on top, on the other hand, does get the empty block.
\<close>

theorem try_grow_no_room_returns_old_block:
  "try_grow \<lparr>m_block = \<lparr>ptr = 0x1000, size' = 64\<rparr>, m_end = 0x1010\<rparr>
       \<lparr>ptr = 0x1000, size' = 16\<rparr> 8 1000
     = Inr (\<lparr>ptr = 0x1000, size' = 16\<rparr>,
            \<lparr>m_block = \<lparr>ptr = 0x1000, size' = 64\<rparr>, m_end = 0x1010\<rparr>)
   \<and> size' \<lparr>ptr = 0x1000, size' = 16 :: size_t\<rparr> \<noteq> 0
   \<and> try_grow \<lparr>m_block = \<lparr>ptr = 0x1000, size' = 64\<rparr>, m_end = 0x1020\<rparr>
       \<lparr>ptr = 0x1000, size' = 16\<rparr> 8 1000
     = Inr (empty_block, \<lparr>m_block = \<lparr>ptr = 0x1000, size' = 64\<rparr>, m_end = 0x1020\<rparr>)"
  by (simp add: try_grow_def push_no_room) (simp add: empty_block_def)

section \<open>Arena: push\<close>

lemma push_unfold:
  assumes "align_forward (m_end A) alignment = Inr addr_begin"
    and "align_forward (addr_begin + sz) alignment = Inr addr_end"
  shows "push A sz alignment =
     (if addr_end > ptr (m_block A) + size' (m_block A) then Inr (empty_block, A)
      else Inr (\<lparr>ptr = addr_begin, size' = addr_end - addr_begin\<rparr>, A\<lparr>m_end := addr_end\<rparr>))"
  using assms by (simp add: push_def)

lemma align_forward_ge:
  assumes "align_forward x a = Inr y"
  shows "x \<le> y"
proof -
  from assms have b: "a - 1 \<le> - 1 - x" and y: "y = (x + (a - 1)) AND NOT (a - 1)"
    by (simp_all add: align_forward_Inr)
  from b have "unat x + unat (a - 1) < 2 ^ 64"
    by (simp add: assert_bound_iff)
  then show ?thesis
    unfolding y by (rule round_up_ge)
qed

lemma unat_sum_le:
  fixes x y :: "64 word"
  shows "unat (x + y) \<le> unat x + unat y"
  by (simp add: unat_word_ariths)

lemma push_block_bounds:
  assumes b: "align_forward (m_end A) alignment = Inr addr_begin"
    and nowrap: "unat addr_begin + unat sz < 2 ^ 64"
    and e: "align_forward (addr_begin + sz) alignment = Inr addr_end"
    and fits: "\<not> addr_end > ptr (m_block A) + size' (m_block A)"
  shows "m_end A \<le> addr_begin" and "addr_begin \<le> addr_end"
    and "unat addr_begin + unat (addr_end - addr_begin)
           \<le> unat (ptr (m_block A)) + unat (size' (m_block A))"
proof -
  show "m_end A \<le> addr_begin"
    using b by (rule align_forward_ge)
  have "addr_begin \<le> addr_begin + sz"
    using nowrap by (simp add: no_olen_add_nat)
  also have "\<dots> \<le> addr_end"
    using e by (rule align_forward_ge)
  finally show le: "addr_begin \<le> addr_end" .
  have "unat addr_begin + unat (addr_end - addr_begin) = unat addr_end"
    using le by (simp add: unat_sub word_le_nat_alt)
  also have "\<dots> \<le> unat (ptr (m_block A) + size' (m_block A))"
    using fits by (simp add: word_le_nat_alt not_less)
  also have "\<dots> \<le> unat (ptr (m_block A)) + unat (size' (m_block A))"
    by (rule unat_sum_le)
  finally show "unat addr_begin + unat (addr_end - addr_begin)
           \<le> unat (ptr (m_block A)) + unat (size' (m_block A))" .
qed

text \<open>
  Where \<open>addr_begin + size\<close> does not wrap around, the capacity test of \<open>push\<close> does its
  work. Let \<open>begin\<close> be the cursor aligned forward and \<open>new_end\<close> be \<open>begin + size\<close> aligned
  forward, both alignments passing their assertions. If \<open>new_end\<close> is beyond
  \<open>base + capacity\<close> the call returns the empty block and the arena is unchanged; otherwise
  the cursor becomes \<open>new_end\<close> and the block is \<open>{begin, new_end - begin}\<close>. The block handed
  out ends at or before the end of the reserved region, and it starts at or after the base
  when the cursor does.
\<close>

theorem push_stays_in_region:
  assumes "align_forward (m_end A) alignment = Inr begin"
    and "unat begin + unat sz < 2 ^ 64"
    and "align_forward (begin + sz) alignment = Inr new_end"
  shows
    "push A sz alignment =
       (if new_end > ptr (m_block A) + size' (m_block A) then Inr (empty_block, A)
        else Inr (\<lparr>ptr = begin, size' = new_end - begin\<rparr>, A\<lparr>m_end := new_end\<rparr>))
     \<and> (\<forall>b A'. push A sz alignment = Inr (b, A') \<longrightarrow>
          unat (ptr b) + unat (size' b) \<le> unat (ptr (m_block A)) + unat (size' (m_block A))
          \<and> (b \<noteq> empty_block \<longrightarrow> ptr (m_block A) \<le> m_end A \<longrightarrow> block_in_region A b))"
proof (cases "new_end > ptr (m_block A) + size' (m_block A)")
  case True
  then show ?thesis
    using push_unfold [OF assms(1) assms(3)] by (auto simp: empty_block_def)
next
  case False
  note bounds = push_block_bounds [OF assms False]
  have "ptr (m_block A) \<le> m_end A \<Longrightarrow> ptr (m_block A) \<le> begin"
    using bounds(1) by simp
  then show ?thesis
    using push_unfold [OF assms(1) assms(3)] False bounds(3)
    by (auto simp: block_in_region_def)
qed

theorem push_stays_in_region_example:
  "align_forward (m_end \<lparr>m_block = \<lparr>ptr = 0x1000, size' = 64\<rparr>, m_end = 0x1003\<rparr>) 8 = Inr 0x1008
   \<and> unat (0x1008 :: size_t) + unat (13 :: size_t) < 2 ^ 64
   \<and> align_forward (0x1008 + 13) 8 = Inr 0x1018
   \<and> push \<lparr>m_block = \<lparr>ptr = 0x1000, size' = 64\<rparr>, m_end = 0x1003\<rparr> 13 8
       = Inr (\<lparr>ptr = 0x1008, size' = 16\<rparr>,
              \<lparr>m_block = \<lparr>ptr = 0x1000, size' = 64\<rparr>, m_end = 0x1018\<rparr>)
   \<and> block_in_region \<lparr>m_block = \<lparr>ptr = 0x1000, size' = 64\<rparr>, m_end = 0x1003\<rparr>
        \<lparr>ptr = 0x1008, size' = 16\<rparr>"
proof -
  have h1: "align_forward (m_end \<lparr>m_block = \<lparr>ptr = 0x1000, size' = 64\<rparr>, m_end = 0x1003\<rparr>) 8
              = Inr 0x1008"
    by (simp add: align_forward_def align_backward_def is_pow2_def)
  have h2: "unat (0x1008 :: size_t) + unat (13 :: size_t) < 2 ^ 64"
    by simp
  have h3: "align_forward (0x1008 + 13) 8 = Inr 0x1018"
    by (simp add: align_forward_def align_backward_def is_pow2_def)
  have p: "push \<lparr>m_block = \<lparr>ptr = 0x1000, size' = 64\<rparr>, m_end = 0x1003\<rparr> 13 8
       = Inr (\<lparr>ptr = 0x1008, size' = 16\<rparr>,
              \<lparr>m_block = \<lparr>ptr = 0x1000, size' = 64\<rparr>, m_end = 0x1018\<rparr>)"
    using push_stays_in_region [OF h1 h2 h3] by simp
  have "block_in_region \<lparr>m_block = \<lparr>ptr = 0x1000, size' = 64\<rparr>, m_end = 0x1003\<rparr>
        \<lparr>ptr = 0x1008, size' = 16\<rparr>"
    using push_stays_in_region [OF h1 h2 h3] p by (simp add: empty_block_def)
  with h1 h2 h3 p show ?thesis
    by blast
qed

text \<open>
  Claim C5. \<open>push\<close> should return the empty block whenever the aligned span would exceed
  the capacity, and never hand out memory beyond the reserved region. The test
  \<open>addr_end > base + capacity\<close> is there for that, and it refuses a request of 8192 bytes in
  an arena of 4096 bytes at address 4096. But \<open>addr_begin + size\<close> is added unchecked: a
  request of \<open>2^64 - 2048\<close> bytes with alignment 8 wraps around to address 2048, passes the
  test and is granted. The cursor moves below the base and the block handed out is almost
  the whole address space.
\<close>

theorem push_wrapping_size_passes_capacity_test:
  "is_pow2 8
   \<and> push \<lparr>m_block = \<lparr>ptr = 0x1000, size' = 0x1000\<rparr>, m_end = 0x1000\<rparr> 0x2000 8
       = Inr (empty_block, \<lparr>m_block = \<lparr>ptr = 0x1000, size' = 0x1000\<rparr>, m_end = 0x1000\<rparr>)
   \<and> push \<lparr>m_block = \<lparr>ptr = 0x1000, size' = 0x1000\<rparr>, m_end = 0x1000\<rparr> (- 0x800) 8
       = Inr (\<lparr>ptr = 0x1000, size' = - 0x800\<rparr>,
              \<lparr>m_block = \<lparr>ptr = 0x1000, size' = 0x1000\<rparr>, m_end = 0x800\<rparr>)
   \<and> \<lparr>ptr = 0x1000, size' = - 0x800\<rparr> \<noteq> empty_block
   \<and> \<not> block_in_region \<lparr>m_block = \<lparr>ptr = 0x1000, size' = 0x1000\<rparr>, m_end = 0x1000\<rparr>
          \<lparr>ptr = 0x1000, size' = - 0x800\<rparr>"
  by (simp add: push_def align_forward_def align_backward_def is_pow2_def block_in_region_def
      empty_block_def)

section \<open>Arena: the stack discipline\<close>

lemma aligned_no_overflow:
  fixes z m :: "64 word"
  assumes "z AND m = 0"
  shows "m \<le> - 1 - z"
proof -
  have "z + m = z OR m"
    using assms by (rule disjunctive_add_eq_or)
  then have "z \<le> z + m"
    by (simp add: le_word_or2)
  then have "unat z + unat m < 2 ^ 64"
    by (simp add: no_olen_add_nat)
  then show ?thesis
    by (simp add: assert_bound_iff)
qed

lemma align_forward_aligned:
  assumes "is_pow2 a" and "z AND (a - 1) = 0"
  shows "align_forward z a = Inr z"
  using assms aligned_no_overflow [OF assms(2)] round_up_idem [OF assms(2)]
  by (simp add: align_forward_Inr)

lemma align_forward_result_aligned:
  "align_forward x a = Inr y \<Longrightarrow> y AND (a - 1) = 0"
  by (simp add: align_forward_Inr round_up_aligned)

lemma push_nonempty:
  assumes "push A sz a = Inr (b, A')" and "size' b \<noteq> 0"
  shows "align_forward (m_end A) a = Inr (ptr b)"
    and "m_end A' = ptr b + size' b"
    and "m_block A' = m_block A"
    and "(ptr b + size' b) AND (a - 1) = 0"
    and "is_pow2 a"
  using assms
  by (auto simp: push_def empty_block_def align_forward_result_aligned align_forward_Inr
      split: sum.splits if_splits)

lemma push_all_stacked:
  assumes "push_all A ss a = Inr (bs, A')"
    and "\<forall>b\<in>set bs. size' b \<noteq> 0 \<and> unat (ptr b) + unat (size' b) < 2 ^ 64"
  shows "stacked a bs \<and> m_block A' = m_block A
      \<and> (bs \<noteq> [] \<longrightarrow> m_end A' = ptr (last bs) + size' (last bs)
                     \<and> align_forward (m_end A) a = Inr (ptr (hd bs)))"
  using assms
proof (induction ss arbitrary: A bs)
  case Nil
  then show ?case by simp
next
  case (Cons s ss)
  from Cons.prems(1) obtain b A1 bs' where
    p: "push A s a = Inr (b, A1)" and r: "push_all A1 ss a = Inr (bs', A')" and bs: "bs = b # bs'"
    by (auto split: sum.splits)
  from Cons.prems(2) bs have ne: "size' b \<noteq> 0" and nw: "unat (ptr b) + unat (size' b) < 2 ^ 64"
    and rest: "\<forall>b\<in>set bs'. size' b \<noteq> 0 \<and> unat (ptr b) + unat (size' b) < 2 ^ 64"
    by simp_all
  note pn = push_nonempty [OF p ne]
  from Cons.IH [OF r rest] have ih: "stacked a bs'" "m_block A' = m_block A1"
    "bs' \<noteq> [] \<Longrightarrow> m_end A' = ptr (last bs') + size' (last bs')"
    "bs' \<noteq> [] \<Longrightarrow> align_forward (m_end A1) a = Inr (ptr (hd bs'))"
    by simp_all
  have ok: "block_ok a b"
    using pn ne nw by (simp add: block_ok_def)
  show ?case
  proof (cases bs')
    case Nil
    with r have "A' = A1" by (cases ss) (auto split: sum.splits)
    with Nil ok pn bs show ?thesis by simp
  next
    case (Cons c cs)
    have "align_forward (m_end A1) a = Inr (ptr b + size' b)"
      using pn by (simp add: align_forward_aligned)
    with ih(4) Cons have "ptr c = ptr b + size' b" by simp
    with ih Cons ok pn bs show ?thesis by simp
  qed
qed

lemma stacked_append_left: "stacked a (xs @ ys) \<Longrightarrow> stacked a xs"
  by (induction a xs rule: stacked.induct) (auto simp: neq_Nil_conv elim: stacked.elims)


lemma stacked_append_right: "stacked a (xs @ ys) \<Longrightarrow> stacked a ys"
proof (induction xs)
  case Nil
  then show ?case by simp
next
  case (Cons x xs)
  then show ?case by (cases "xs @ ys") auto
qed

lemma stacked_block_ok: "stacked a bs \<Longrightarrow> b \<in> set bs \<Longrightarrow> block_ok a b"
  by (induction a bs rule: stacked.induct) auto

lemma stacked_consecutive:
  "stacked a (xs @ ys) \<Longrightarrow> xs \<noteq> [] \<Longrightarrow> ys \<noteq> [] \<Longrightarrow>
     ptr (hd ys) = ptr (last xs) + size' (last xs)"
proof (induction xs)
  case Nil
  then show ?case by simp
next
  case (Cons x xs)
  show ?case
  proof (cases xs)
    case Nil
    with Cons.prems show ?thesis by (cases ys) auto
  next
    case (Cons x' xs')
    with Cons.prems Cons.IH show ?thesis by auto
  qed
qed

lemma block_ok_end:
  "block_ok a b \<Longrightarrow> unat (ptr b) < unat (ptr b + size' b)"
  by (simp add: block_ok_def unat_add_lem [THEN iffD1] unat_gt_0)

lemma stacked_ends_increase:
  "stacked a (b # bs) \<Longrightarrow> c \<in> set bs \<Longrightarrow>
     unat (ptr b + size' b) < unat (ptr c + size' c)"
proof (induction bs arbitrary: b)
  case Nil
  then show ?case by simp
next
  case (Cons c' bs')
  from Cons.prems(1) have link: "ptr c' = ptr b + size' b" and okc: "block_ok a c'"
    and rest: "stacked a (c' # bs')"
    by (auto intro: stacked_block_ok)
  have first: "unat (ptr b + size' b) < unat (ptr c' + size' c')"
    using block_ok_end [OF okc] link by simp
  show ?case
  proof (cases "c = c'")
    case True
    with first show ?thesis by simp
  next
    case False
    with Cons.prems(2) have "c \<in> set bs'" by simp
    from Cons.IH [OF rest this] first show ?thesis by simp
  qed
qed

lemma pop_top:
  assumes "block_ok a b" and "m_end A = ptr b + size' b"
  shows "pop A b a = Inr (True, A\<lparr>m_end := ptr b\<rparr>)"
proof -
  have "align_forward (m_end A) a = Inr (ptr b + size' b)"
    using assms by (simp add: block_ok_def align_forward_aligned)
  then show ?thesis
    by (simp add: pop_def)
qed

lemma pop_all_reverse:
  "stacked a (pre @ post) \<Longrightarrow> post \<noteq> [] \<Longrightarrow>
   m_end A = ptr (last post) + size' (last post) \<Longrightarrow>
   pop_all A (rev post) a = Inr (True, A\<lparr>m_end := ptr (hd post)\<rparr>)"
proof (induction post arbitrary: A rule: rev_induct)
  case Nil
  then show ?case by simp
next
  case (snoc b post')
  have okb: "block_ok a b"
    using snoc.prems(1) by (auto intro: stacked_block_ok)
  have top: "pop A b a = Inr (True, A\<lparr>m_end := ptr b\<rparr>)"
    using okb snoc.prems(3) by (simp add: pop_top)
  show ?case
  proof (cases "post' = []")
    case True
    with top show ?thesis by simp
  next
    case False
    have st: "stacked a (pre @ post')"
      using snoc.prems(1) stacked_append_left [of a "pre @ post'" "[b]"] by simp
    have "stacked a (post' @ [b])"
      using snoc.prems(1) by (rule stacked_append_right)
    from stacked_consecutive [OF this False] have link: "ptr b = ptr (last post') + size' (last post')"
      by simp
    have "pop_all (A\<lparr>m_end := ptr b\<rparr>) (rev post') a
            = Inr (True, A\<lparr>m_end := ptr b\<rparr>\<lparr>m_end := ptr (hd post')\<rparr>)"
      using st False link by (intro snoc.IH) simp_all
    with top False show ?thesis by simp
  qed
qed

lemma pop_below_top:
  assumes st: "stacked a pre" and i: "Suc i < length pre"
    and cur: "m_end S = ptr (last pre) + size' (last pre)"
  shows "pop S (pre ! i) a = Inr (False, S)"
proof -
  have ne: "pre \<noteq> []" using i by auto
  have okl: "block_ok a (last pre)"
    using st ne by (auto intro: stacked_block_ok)
  have al: "align_forward (m_end S) a = Inr (ptr (last pre) + size' (last pre))"
    using okl cur by (simp add: block_ok_def align_forward_aligned)
  have "pre = take i pre @ (pre ! i # drop (Suc i) pre)"
    using i by (simp add: Cons_nth_drop_Suc)
  then have "stacked a (take i pre @ (pre ! i # drop (Suc i) pre))"
    using st by simp
  then have st': "stacked a (pre ! i # drop (Suc i) pre)"
    by (rule stacked_append_right)
  have "last pre \<in> set (drop (Suc i) pre)"
    using i by (metis drop_eq_Nil last_drop last_in_set not_le)
  from stacked_ends_increase [OF st' this]
  have "ptr (pre ! i) + size' (pre ! i) \<noteq> ptr (last pre) + size' (last pre)"
    by auto
  with al show ?thesis
    by (simp add: pop_def)
qed

text \<open>
  Where no push wraps around, the stack discipline holds. Push any list of sizes with one
  alignment, and let every block that comes back be non-empty and not wrap around the
  64-bit address space (\<open>ptr + size < 2^64\<close>). Then popping any number of the blocks in
  reverse order succeeds, the cursor being rewound to the pointer of the block popped
  last; and in every state reached that way, popping a block that still has a live block
  above it returns false and leaves the arena as it is.
\<close>

theorem arena_lifo:
  assumes "push_all A ss a = Inr (bs, A')"
    and "\<forall>b\<in>set bs. size' b \<noteq> 0 \<and> unat (ptr b) + unat (size' b) < 2 ^ 64"
  shows
    "(\<forall>pre post. bs = pre @ post \<and> post \<noteq> [] \<longrightarrow>
        pop_all A' (rev post) a = Inr (True, A'\<lparr>m_end := ptr (hd post)\<rparr>))
     \<and> (\<forall>pre post i S. bs = pre @ post \<and> Suc i < length pre
            \<and> pop_all A' (rev post) a = Inr (True, S) \<longrightarrow>
          pop S (pre ! i) a = Inr (False, S))"
proof -
  from push_all_stacked [OF assms] have st: "stacked a bs"
    and cur: "bs \<noteq> [] \<Longrightarrow> m_end A' = ptr (last bs) + size' (last bs)"
    by simp_all
  have rev_ok: "pop_all A' (rev post) a = Inr (True, A'\<lparr>m_end := ptr (hd post)\<rparr>)"
    if "bs = pre @ post" "post \<noteq> []" for pre post
    using that st cur by (intro pop_all_reverse [of a pre]) auto
  have below: "pop S (pre ! i) a = Inr (False, S)"
    if split: "bs = pre @ post" and i: "Suc i < length pre"
      and S: "pop_all A' (rev post) a = Inr (True, S)" for pre post i S
  proof -
    have stp: "stacked a pre"
      using st split stacked_append_left by simp
    have ne: "pre \<noteq> []" using i by auto
    have "m_end S = ptr (last pre) + size' (last pre)"
    proof (cases "post = []")
      case True
      with S split cur ne show ?thesis by auto
    next
      case False
      from rev_ok [OF split False] S have "S = A'\<lparr>m_end := ptr (hd post)\<rparr>" by simp
      moreover have "ptr (hd post) = ptr (last pre) + size' (last pre)"
        using st split ne False by (auto intro: stacked_consecutive)
      ultimately show ?thesis by simp
    qed
    with stp i show ?thesis by (rule pop_below_top)
  qed
  from rev_ok below show ?thesis by blast
qed

theorem arena_lifo_example:
  "push_all \<lparr>m_block = \<lparr>ptr = 0x1000, size' = 64\<rparr>, m_end = 0x1000\<rparr> [16, 16] 4
     = Inr ([\<lparr>ptr = 0x1000, size' = 16\<rparr>, \<lparr>ptr = 0x1010, size' = 16\<rparr>],
            \<lparr>m_block = \<lparr>ptr = 0x1000, size' = 64\<rparr>, m_end = 0x1020\<rparr>)
   \<and> pop \<lparr>m_block = \<lparr>ptr = 0x1000, size' = 64\<rparr>, m_end = 0x1020\<rparr>
         \<lparr>ptr = 0x1000, size' = 16\<rparr> 4
       = Inr (False, \<lparr>m_block = \<lparr>ptr = 0x1000, size' = 64\<rparr>, m_end = 0x1020\<rparr>)
   \<and> pop_all \<lparr>m_block = \<lparr>ptr = 0x1000, size' = 64\<rparr>, m_end = 0x1020\<rparr>
         [\<lparr>ptr = 0x1010, size' = 16\<rparr>, \<lparr>ptr = 0x1000, size' = 16\<rparr>] 4
       = Inr (True, \<lparr>m_block = \<lparr>ptr = 0x1000, size' = 64\<rparr>, m_end = 0x1000\<rparr>)"
proof -
  let ?A0 = "\<lparr>m_block = \<lparr>ptr = 0x1000, size' = 64\<rparr>, m_end = 0x1000 :: uintptr_t\<rparr>"
  let ?A2 = "\<lparr>m_block = \<lparr>ptr = 0x1000, size' = 64\<rparr>, m_end = 0x1020 :: uintptr_t\<rparr>"
  let ?b1 = "\<lparr>ptr = 0x1000 :: uintptr_t, size' = 16 :: size_t\<rparr>"
  let ?b2 = "\<lparr>ptr = 0x1010 :: uintptr_t, size' = 16 :: size_t\<rparr>"
  have h1: "push_all ?A0 [16, 16] 4 = Inr ([?b1, ?b2], ?A2)"
    by (simp add: push_def align_forward_def align_backward_def is_pow2_def)
  have h2: "\<forall>b\<in>set [?b1, ?b2]. size' b \<noteq> 0 \<and> unat (ptr b) + unat (size' b) < 2 ^ 64"
    by simp
  note lifo = arena_lifo [OF h1 h2]
  from lifo have "pop_all ?A2 (rev [?b1, ?b2]) 4 = Inr (True, ?A2\<lparr>m_end := ptr (hd [?b1, ?b2])\<rparr>)"
    by (elim conjE allE [where x = "[]"] allE [where x = "[?b1, ?b2]"]) simp
  then have rev_pops: "pop_all ?A2 [?b2, ?b1] 4 = Inr (True, ?A0)"
    by simp
  from lifo have "[?b1, ?b2] = [?b1, ?b2] @ [] \<and> Suc 0 < length [?b1, ?b2]
        \<and> pop_all ?A2 (rev []) 4 = Inr (True, ?A2) \<longrightarrow>
      pop ?A2 ([?b1, ?b2] ! 0) 4 = Inr (False, ?A2)"
    by blast
  then have "pop ?A2 ?b1 4 = Inr (False, ?A2)"
    by simp
  with h1 rev_pops show ?thesis
    by simp
qed

text \<open>
  Claim C6. Popping a block while later blocks are live should return false and leave the
  cursor alone. The unchecked addition of \<open>push\<close> (the defect shown for claim C5) breaks
  that: after pushes of 16, 16 and \<open>2^64 - 16\<close> bytes with alignment 8, all three granted
  with non-empty blocks and no pop in between, the cursor is back at the end of the first
  block, and popping the first block succeeds and rewinds the cursor to the base while the
  two later blocks are live.
\<close>

theorem wrapping_push_lets_lower_block_pop:
  "push_all \<lparr>m_block = \<lparr>ptr = 0x1000, size' = 0x1000\<rparr>, m_end = 0x1000\<rparr> [16, 16, - 16] 8
     = Inr ([\<lparr>ptr = 0x1000, size' = 16\<rparr>, \<lparr>ptr = 0x1010, size' = 16\<rparr>,
             \<lparr>ptr = 0x1020, size' = - 16\<rparr>],
            \<lparr>m_block = \<lparr>ptr = 0x1000, size' = 0x1000\<rparr>, m_end = 0x1010\<rparr>)
   \<and> size' \<lparr>ptr = 0x1000, size' = 16 :: size_t\<rparr> \<noteq> 0
   \<and> size' \<lparr>ptr = 0x1010, size' = 16 :: size_t\<rparr> \<noteq> 0
   \<and> size' \<lparr>ptr = 0x1020, size' = - 16 :: size_t\<rparr> \<noteq> 0
   \<and> pop \<lparr>m_block = \<lparr>ptr = 0x1000, size' = 0x1000\<rparr>, m_end = 0x1010\<rparr>
         \<lparr>ptr = 0x1000, size' = 16\<rparr> 8
       = Inr (True, \<lparr>m_block = \<lparr>ptr = 0x1000, size' = 0x1000\<rparr>, m_end = 0x1000\<rparr>)"
  by (simp add: push_def pop_def align_forward_def align_backward_def is_pow2_def)


section \<open>Arena: the cursor invariant\<close>

lemma push_inv:
  assumes inv: "arena_inv A" and ok: "push_exact A sz a" and p: "push A sz a = Inr (b, A')"
  shows "arena_inv A' \<and> m_block A' = m_block A"
proof -
  from p obtain addr_begin addr_end where
    b: "align_forward (m_end A) a = Inr addr_begin"
    and e: "align_forward (addr_begin + sz) a = Inr addr_end"
    by (auto simp: push_def split: sum.splits)
  from ok b have nowrap: "unat addr_begin + unat sz < 2 ^ 64"
    by (simp add: push_exact_def)
  show ?thesis
  proof (cases "addr_end > ptr (m_block A) + size' (m_block A)")
    case True
    with p b e inv show ?thesis by (simp add: push_def)
  next
    case False
    note bounds = push_block_bounds [OF b nowrap e False]
    from p b e False have A': "A' = A\<lparr>m_end := addr_end\<rparr>"
      by (simp add: push_def)
    have "unat addr_end \<le> unat (ptr (m_block A)) + unat (size' (m_block A))"
      using bounds(2,3) by (simp add: unat_sub word_le_nat_alt)
    moreover have "ptr (m_block A) \<le> m_end A"
      using inv by (simp add: arena_inv_def)
    then have "ptr (m_block A) \<le> addr_end"
      using bounds(1,2) by (meson order_trans)
    ultimately show ?thesis
      using A' by (simp add: arena_inv_def)
  qed
qed

lemma pop_inv:
  assumes inv: "arena_inv A" and ok: "block_in_region A b" and p: "pop A b a = Inr (r, A')"
  shows "arena_inv A' \<and> m_block A' = m_block A"
  using assms
  by (auto simp: pop_def Let_def arena_inv_def block_in_region_def split: sum.splits if_splits)

lemma try_shrink_inv:
  assumes inv: "arena_inv A" and ok: "block_in_region A b"
    and p: "try_shrink A b a n = Inr (r, A')"
  shows "arena_inv A' \<and> m_block A' = m_block A"
proof (cases "n > size' b \<or> \<not> r")
  case True
  with p inv show ?thesis
    by (auto simp: try_shrink_def pop_def Let_def split: sum.splits if_splits)
next
  case False
  then have n: "unat n \<le> unat (size' b)" and r: r
    by (simp_all add: word_le_nat_alt not_less)
  from p False obtain top where top: "align_forward (m_end A) a = Inr top"
    and gate: "(ptr b + n) + (size' b - n) = top" and A': "A' = A\<lparr>m_end := ptr b + n\<rparr>"
    by (auto simp: try_shrink_def pop_def Let_def split: sum.splits if_splits)
  from ok have lo: "unat (ptr (m_block A)) \<le> unat (ptr b)"
    and hi: "unat (ptr b) + unat (size' b) \<le> unat (ptr (m_block A)) + unat (size' (m_block A))"
    by (simp_all add: block_in_region_def word_le_nat_alt)
  have "m_end A \<le> top"
    using top by (rule align_forward_ge)
  with inv have "unat (ptr (m_block A)) \<le> unat top"
    by (simp add: arena_inv_def word_le_nat_alt)
  moreover have "top = ptr b + size' b"
    using gate by simp
  ultimately have base_le: "unat (ptr (m_block A)) \<le> unat (ptr b + size' b)"
    by simp
  have nowrap: "unat (ptr b) + unat (size' b) < 2 ^ 64"
  proof (rule ccontr)
    assume "\<not> unat (ptr b) + unat (size' b) < 2 ^ 64"
    then have ge: "2 ^ 64 \<le> unat (ptr b) + unat (size' b)" by simp
    have "unat (ptr b + size' b) = (unat (ptr b) + unat (size' b)) mod 2 ^ 64"
      by (simp add: unat_word_ariths)
    also have "\<dots> = unat (ptr b) + unat (size' b) - 2 ^ 64"
      using ge unsigned_less [of "ptr b", where ?'a = nat]
        unsigned_less [of "size' b", where ?'a = nat]
      by (simp add: mod_if)
    finally have "unat (ptr b + size' b) = unat (ptr b) + unat (size' b) - 2 ^ 64" .
    with hi ge unsigned_less [of "size' (m_block A)", where ?'a = nat] base_le
    show False by simp
  qed
  have sum: "unat (ptr b + n) = unat (ptr b) + unat n"
    using n nowrap by (simp add: unat_add_lem [THEN iffD1])
  with lo hi n A' show ?thesis
    by (simp add: arena_inv_def word_le_nat_alt)
qed

lemma try_grow_inv:
  assumes inv: "arena_inv A" and ok: "push_exact A sz a" and p: "try_grow A b a sz = Inr (r, A')"
  shows "arena_inv A' \<and> m_block A' = m_block A"
proof (cases "ptr b + size' b \<noteq> m_end A")
  case True
  with p inv show ?thesis by (simp add: try_grow_def)
next
  case False
  with p obtain nb where "push A sz a = Inr (nb, A')"
    by (auto simp: try_grow_def split: sum.splits)
  with inv ok show ?thesis by (intro push_inv)
qed

lemma map_sum_snd_Inr:
  assumes "map_sum id snd r = Inr y"
  obtains x where "r = Inr (x, y)"
proof (cases r)
  case (Inl e)
  with assms show ?thesis by simp
next
  case (Inr p)
  with assms have "snd p = y" by simp
  then have "p = (fst p, y)" by (metis prod.collapse)
  with Inr that show ?thesis by metis
qed

lemma exec_inv:
  assumes inv: "arena_inv A" and ok: "call_ok A c"
    and ex: "exec A c = Inr A'"
  shows "arena_inv A' \<and> m_block A' = m_block A"
proof (cases c)
  case (Push sz a)
  from ex Push have "map_sum id snd (push A sz a) = Inr A'" by simp
  then obtain b where p: "push A sz a = Inr (b, A')"
    by (rule map_sum_snd_Inr)
  from ok Push have "push_exact A sz a" by simp
  from push_inv [OF inv this p] show ?thesis .
next
  case (Pop b a)
  from ex Pop have "map_sum id snd (pop A b a) = Inr A'" by simp
  then obtain r where p: "pop A b a = Inr (r, A')"
    by (rule map_sum_snd_Inr)
  from ok Pop have "block_in_region A b" by simp
  from pop_inv [OF inv this p] show ?thesis .
next
  case Clear
  with ex have "A' = clear A" by simp
  with inv show ?thesis by (simp add: clear_def arena_inv_def)
next
  case (TryGrow b a sz)
  from ex TryGrow have "map_sum id snd (try_grow A b a sz) = Inr A'" by simp
  then obtain r where p: "try_grow A b a sz = Inr (r, A')"
    by (rule map_sum_snd_Inr)
  from ok TryGrow have "push_exact A sz a" by simp
  from try_grow_inv [OF inv this p] show ?thesis .
next
  case (TryShrink b a n)
  from ex TryShrink have "map_sum id snd (try_shrink A b a n) = Inr A'" by simp
  then obtain r where p: "try_shrink A b a n = Inr (r, A')"
    by (rule map_sum_snd_Inr)
  from ok TryShrink have "block_in_region A b" by simp
  from try_shrink_inv [OF inv this p] show ?thesis .
qed

lemma states_inv:
  "arena_inv A \<Longrightarrow> calls_ok A cs \<Longrightarrow> S \<in> set (states A cs) \<Longrightarrow> arena_inv S"
proof (induction cs arbitrary: A)
  case Nil
  then show ?case by simp
next
  case (Cons c cs)
  show ?case
  proof (cases "exec A c")
    case (Inl e)
    with Cons.prems show ?thesis by simp
  next
    case (Inr A')
    from Cons.prems have ok: "call_ok A c" by simp
    from exec_inv [OF Cons.prems(1) ok Inr] have inv': "arena_inv A'" by simp
    from Cons.prems(2) Inr have oks: "calls_ok A' cs" by simp
    from Cons.prems(3) Inr have "S = A' \<or> S \<in> set (states A' cs)" by simp
    then show ?thesis
    proof
      assume "S = A'"
      with inv' show ?thesis by simp
    next
      assume "S \<in> set (states A' cs)"
      with inv' oks show ?thesis by (intro Cons.IH [of A'])
    qed
  qed
qed

text \<open>
  Claim C10, as the code has it. Create an arena and run any sequence of push, pop, clear,
  try_grow and try_shrink calls in which every block passed to pop or try_shrink lies
  inside the reserved region and no push (alone or inside try_grow) wraps around in
  \<open>addr_begin + size\<close>. Then \<open>base \<le> cursor \<le> base + capacity\<close> holds at creation and after
  every call.
\<close>

theorem arena_cursor_invariant:
  assumes "Arena_create reserved committed cap = Inr A"
    and "calls_ok A cs"
  shows "arena_inv A \<and> (\<forall>S\<in>set (states A cs). arena_inv S)"
proof -
  from assms(1) have A: "A = \<lparr>m_block = reserved, m_end = ptr reserved\<rparr>"
    by (auto simp: Arena_create_def split: if_splits)
  then have inv: "arena_inv A"
    by (simp add: arena_inv_def)
  then show ?thesis
    using assms(2) by (auto intro: states_inv)
qed

theorem arena_cursor_invariant_witness:
  "Arena_create \<lparr>ptr = 0x1000, size' = 64\<rparr> True 64
     = Inr \<lparr>m_block = \<lparr>ptr = 0x1000, size' = 64\<rparr>, m_end = 0x1000\<rparr>
   \<and> calls_ok \<lparr>m_block = \<lparr>ptr = 0x1000, size' = 64\<rparr>, m_end = 0x1000\<rparr>
         [Push 16 4, Push 16 4, Pop \<lparr>ptr = 0x1010, size' = 16\<rparr> 4,
          TryShrink \<lparr>ptr = 0x1000, size' = 16\<rparr> 4 8, TryGrow \<lparr>ptr = 0x1000, size' = 8\<rparr> 4 100,
          Clear]
   \<and> states \<lparr>m_block = \<lparr>ptr = 0x1000, size' = 64\<rparr>, m_end = 0x1000\<rparr>
         [Push 16 4, Push 16 4, Pop \<lparr>ptr = 0x1010, size' = 16\<rparr> 4,
          TryShrink \<lparr>ptr = 0x1000, size' = 16\<rparr> 4 8, TryGrow \<lparr>ptr = 0x1000, size' = 8\<rparr> 4 100,
          Clear]
       = [\<lparr>m_block = \<lparr>ptr = 0x1000, size' = 64\<rparr>, m_end = 0x1010\<rparr>,
          \<lparr>m_block = \<lparr>ptr = 0x1000, size' = 64\<rparr>, m_end = 0x1020\<rparr>,
          \<lparr>m_block = \<lparr>ptr = 0x1000, size' = 64\<rparr>, m_end = 0x1010\<rparr>,
          \<lparr>m_block = \<lparr>ptr = 0x1000, size' = 64\<rparr>, m_end = 0x1008\<rparr>,
          \<lparr>m_block = \<lparr>ptr = 0x1000, size' = 64\<rparr>, m_end = 0x1008\<rparr>,
          \<lparr>m_block = \<lparr>ptr = 0x1000, size' = 64\<rparr>, m_end = 0x1000\<rparr>]
   \<and> list_all arena_inv
        (states \<lparr>m_block = \<lparr>ptr = 0x1000, size' = 64\<rparr>, m_end = 0x1000\<rparr>
         [Push 16 4, Push 16 4, Pop \<lparr>ptr = 0x1010, size' = 16\<rparr> 4,
          TryShrink \<lparr>ptr = 0x1000, size' = 16\<rparr> 4 8, TryGrow \<lparr>ptr = 0x1000, size' = 8\<rparr> 4 100,
          Clear])"
proof -
  let ?R = "\<lparr>ptr = 0x1000 :: uintptr_t, size' = 64 :: size_t\<rparr>"
  let ?A0 = "\<lparr>m_block = ?R, m_end = 0x1000 :: uintptr_t\<rparr>"
  let ?cs = "[Push 16 4, Push 16 4, Pop \<lparr>ptr = 0x1010, size' = 16\<rparr> 4,
          TryShrink \<lparr>ptr = 0x1000, size' = 16\<rparr> 4 8, TryGrow \<lparr>ptr = 0x1000, size' = 8\<rparr> 4 100,
          Clear]"
  have h1: "Arena_create ?R True 64 = Inr ?A0"
    by (simp add: Arena_create_def)
  have st: "states ?A0 ?cs
       = [\<lparr>m_block = ?R, m_end = 0x1010\<rparr>, \<lparr>m_block = ?R, m_end = 0x1020\<rparr>,
          \<lparr>m_block = ?R, m_end = 0x1010\<rparr>, \<lparr>m_block = ?R, m_end = 0x1008\<rparr>,
          \<lparr>m_block = ?R, m_end = 0x1008\<rparr>, \<lparr>m_block = ?R, m_end = 0x1000\<rparr>]"
    by (simp add: push_def pop_def try_grow_def try_shrink_def clear_def empty_block_def
        align_forward_def align_backward_def is_pow2_def)
  have h3: "calls_ok ?A0 ?cs"
    by (simp add: push_def pop_def try_grow_def try_shrink_def clear_def empty_block_def
        push_exact_def block_in_region_def align_forward_def align_backward_def is_pow2_def)
  from arena_cursor_invariant [OF h1 h3] have "list_all arena_inv (states ?A0 ?cs)"
    unfolding list_all_iff by blast
  with h1 h3 st show ?thesis
    by blast
qed

text \<open>
  The claim as stated, with arbitrary block arguments, fails: the arena keeps no record of
  the blocks it issued, and \<open>pop\<close> accepts any block whose end is the cursor. In a fresh
  arena at address 4096, popping the block \<open>{2048, 2048}\<close> succeeds and leaves the cursor at
  2048, below the base.
\<close>

theorem arena_cursor_invariant_counterexample:
  "Arena_create \<lparr>ptr = 0x1000, size' = 0x1000\<rparr> True 0x1000
     = Inr \<lparr>m_block = \<lparr>ptr = 0x1000, size' = 0x1000\<rparr>, m_end = 0x1000\<rparr>
   \<and> pop \<lparr>m_block = \<lparr>ptr = 0x1000, size' = 0x1000\<rparr>, m_end = 0x1000\<rparr>
         \<lparr>ptr = 0x800, size' = 0x800\<rparr> 8
       = Inr (True, \<lparr>m_block = \<lparr>ptr = 0x1000, size' = 0x1000\<rparr>, m_end = 0x800\<rparr>)
   \<and> states \<lparr>m_block = \<lparr>ptr = 0x1000, size' = 0x1000\<rparr>, m_end = 0x1000\<rparr>
         [Pop \<lparr>ptr = 0x800, size' = 0x800\<rparr> 8]
       = [\<lparr>m_block = \<lparr>ptr = 0x1000, size' = 0x1000\<rparr>, m_end = 0x800\<rparr>]
   \<and> \<not> arena_inv \<lparr>m_block = \<lparr>ptr = 0x1000, size' = 0x1000\<rparr>, m_end = 0x800\<rparr>"
  by (simp add: Arena_create_def pop_def arena_inv_def align_forward_def align_backward_def
      is_pow2_def)


text \<open>
  A push that wraps around breaks the invariant as well: the wrapping push shown for claim
  C5 leaves the cursor at 2048, below the base.
\<close>

lemma wrapping_push_breaks_invariant:
  "states \<lparr>m_block = \<lparr>ptr = 0x1000, size' = 0x1000\<rparr>, m_end = 0x1000\<rparr> [Push (- 0x800) 8]
     = [\<lparr>m_block = \<lparr>ptr = 0x1000, size' = 0x1000\<rparr>, m_end = 0x800\<rparr>]
   \<and> \<not> arena_inv \<lparr>m_block = \<lparr>ptr = 0x1000, size' = 0x1000\<rparr>, m_end = 0x800\<rparr>"
  by (simp add: push_def arena_inv_def align_forward_def align_backward_def is_pow2_def)

section \<open>Array: growth on append\<close>

text \<open>
  Claim C1. An append that must grow should allocate \<open>max(2 * capacity, requested)\<close> bytes.
  Take an \<^verbatim>\<open>Array<int>\<close> that is full with four elements in a block of 16 bytes. Appending a
  fifth element, or two more with \<open>append_n\<close>, calls \<open>reserve(size + count)\<close>, which asks
  the allocator for exactly \<open>count * sizeof(T)\<close> bytes: the new block has 24 bytes in both
  cases. \<open>allocate_amortized\<close>, which holds the doubling policy and which no member calls,
  would have returned 32 bytes.
\<close>

theorem append_reserves_exact_size:
  "map_sum id snd
     (array_run int_type (Map.empty, Array_default)
        [Reserve 0x1000 4, Append 0 1, Append 0 2, Append 0 3, Append 0 4])
     = Inr \<lparr>m_block' = \<lparr>ptr = 0x1000, size' = 16\<rparr>, m_count' = 4\<rparr>
   \<and> map_sum id snd
     (array_run int_type (Map.empty, Array_default)
        [Reserve 0x1000 4, Append 0 1, Append 0 2, Append 0 3, Append 0 4, Append 0x2000 5])
     = Inr \<lparr>m_block' = \<lparr>ptr = 0x2000, size' = 24\<rparr>, m_count' = 5\<rparr>
   \<and> map_sum id snd
     (array_run int_type (Map.empty, Array_default)
        [Reserve 0x1000 4, Append 0 1, Append 0 2, Append 0 3, Append 0 4, AppendN 0x2000 2 5])
     = Inr \<lparr>m_block' = \<lparr>ptr = 0x2000, size' = 24\<rparr>, m_count' = 6\<rparr>
   \<and> allocate_amortized int_type 0x2000
       \<lparr>m_block' = \<lparr>ptr = 0x1000, size' = 16\<rparr>, m_count' = 4\<rparr> 5
     = Inr \<lparr>ptr = 0x2000, size' = 32\<rparr>"
  by code_simp

text \<open>
  The same for every array: a \<open>reserve\<close> that allocates, and so an \<open>append\<close> that must grow,
  ends with a block of exactly the requested bytes rounded up to the allocator's
  alignment, whatever the old capacity was.
\<close>

lemma reserve_allocates_request:
  assumes "count > capacity T arr"
    and "reserve T p (h, arr) count = Inr (h', arr')"
  shows "align_forward (count * sizeof T) (bpl_max 8 (alignof T)) = Inr (size' (m_block' arr'))"
  using assms
  by (auto simp: allocate_def alignment_of_def Let_def not_le
      split: sum.splits if_splits prod.splits)

lemma append_allocates_request:
  assumes "size_of arr + 1 > capacity T arr"
    and "append' T p (h, arr) v = Inr (h', arr')"
  shows "align_forward ((size_of arr + 1) * sizeof T) (bpl_max 8 (alignof T))
           = Inr (size' (m_block' arr'))"
proof -
  from assms(2) obtain h1 arr1 where
    r: "reserve T p (h, arr) (size_of arr + 1) = Inr (h1, arr1)"
    and a: "arr' = arr1\<lparr>m_count' := m_count' arr1 + 1\<rparr>"
    by (auto simp: append'_def split: sum.splits)
  from reserve_allocates_request [OF assms(1) r] a show ?thesis
    by simp
qed

section \<open>Array: insertion\<close>

text \<open>
  Claim C3. In an \<^verbatim>\<open>Array<int>\<close> with room for eight elements that holds 1, 2,
  \<open>insert(0, 9)\<close> should leave 9, 1, 2. The array comes out with size 3 and the 9 at index
  0, but the slots at indices 1 and 2 hold no object: \<open>insert\<close> passes
  \<^verbatim>\<open>as_raw_span()[{ .start = size() + 1 }]\<close> as the destination, so the tail is relocated
  to the last slots of the block. \<open>insert_range\<close>, which passes
  \<^verbatim>\<open>as_raw_span()[{ .end = size() + size(range) }]\<close>, shifts the tail as the claim says.
  When the block has room for exactly one more element, the assertion of
  \<open>relocate_backward\<close> fails instead.
\<close>

theorem insert_relocates_tail_to_block_end:
  "map_sum id (\<lambda>s. (snd s, elements int_type s))
     (array_run int_type (Map.empty, Array_default)
        [Reserve 0x1000 8, Append 0 1, Append 0 2])
     = Inr (\<lparr>m_block' = \<lparr>ptr = 0x1000, size' = 32\<rparr>, m_count' = 2\<rparr>, [Some 1, Some 2])
   \<and> map_sum id (\<lambda>s. (snd s, elements int_type s))
     (array_run int_type (Map.empty, Array_default)
        [Reserve 0x1000 8, Append 0 1, Append 0 2, Insert 0 0 9])
     = Inr (\<lparr>m_block' = \<lparr>ptr = 0x1000, size' = 32\<rparr>, m_count' = 3\<rparr>, [Some 9, None, None])
   \<and> map_sum id (\<lambda>s. map (fst s) [0x1018, 0x101C])
     (array_run int_type (Map.empty, Array_default)
        [Reserve 0x1000 8, Append 0 1, Append 0 2, Insert 0 0 9])
     = Inr [Some 1, Some 2]
   \<and> map_sum id (\<lambda>s. (snd s, elements int_type s))
     (array_run int_type (Map.empty, Array_default)
        [Reserve 0x1000 8, Append 0 1, Append 0 2, InsertRange 0 0 [9]])
     = Inr (\<lparr>m_block' = \<lparr>ptr = 0x1000, size' = 32\<rparr>, m_count' = 3\<rparr>,
            [Some 9, Some 1, Some 2])
   \<and> map_sum id (\<lambda>s. (snd s, elements int_type s))
     (array_run int_type (Map.empty, Array_default)
        [Append 0x1000 1, Append 0 2, Insert 0x2000 0 9])
     = Inl DebugAssertFailed"
  by code_simp

text \<open>
  The same for every array with spare capacity whose slot at index \<open>size\<close> is
  unconstructed, as it is in every well-formed array: whenever \<open>idx < size\<close> and
  \<open>insert(idx, v)\<close> returns, the size has grown by one and the slot at the new last index
  still holds no object. The relocation writes only to slots of the span that starts at
  index \<open>size + 1\<close>.
\<close>

lemma slot_offsets_distinct:
  fixes a b sz :: size_t
  assumes "sz \<noteq> 0" and "unat a * unat sz < 2 ^ 64" and "unat b * unat sz < 2 ^ 64"
    and "a \<noteq> b"
  shows "a * sz \<noteq> b * sz"
proof
  assume eq: "a * sz = b * sz"
  have "unat (a * sz) = unat a * unat sz"
    using assms(2) by (simp add: unat_mult_lem [THEN iffD1])
  moreover have "unat (b * sz) = unat b * unat sz"
    using assms(3) by (simp add: unat_mult_lem [THEN iffD1])
  ultimately have "unat a * unat sz = unat b * unat sz"
    using eq by metis
  moreover have "0 < unat sz"
    using assms(1) by (simp add: unat_gt_0)
  ultimately have "unat a = unat b"
    by simp
  with assms(4) show False
    by (simp add: word_unat_eq_iff)
qed

lemma capacity_bytes:
  "unat (capacity T arr) * unat (sizeof T) < 2 ^ 64"
proof -
  have "unat (capacity T arr) = unat (size' (m_block' arr)) div unat (sizeof T)"
    by (simp add: capacity_def unat_div)
  then have "unat (capacity T arr) * unat (sizeof T) \<le> unat (size' (m_block' arr))"
    by simp
  also have "\<dots> < 2 ^ 64"
    using unsigned_less [of "size' (m_block' arr)", where ?'a = nat] by simp
  finally show ?thesis .
qed

lemma slot_distinct:
  assumes sz: "sizeof T \<noteq> 0" and a: "a \<le> capacity T arr" and b: "b \<le> capacity T arr"
    and ne: "a \<noteq> b"
  shows "data arr + a * sizeof T \<noteq> data arr + b * sizeof T"
proof -
  have "unat a \<le> unat (capacity T arr)"
    using a by (simp add: word_le_nat_alt)
  then have "unat a * unat (sizeof T) \<le> unat (capacity T arr) * unat (sizeof T)"
    by (rule mult_le_mono1)
  then have A: "unat a * unat (sizeof T) < 2 ^ 64"
    using capacity_bytes [of T arr] by (rule le_less_trans)
  have "unat b \<le> unat (capacity T arr)"
    using b by (simp add: word_le_nat_alt)
  then have "unat b * unat (sizeof T) \<le> unat (capacity T arr) * unat (sizeof T)"
    by (rule mult_le_mono1)
  then have B: "unat b * unat (sizeof T) < 2 ^ 64"
    using capacity_bytes [of T arr] by (rule le_less_trans)
  from slot_offsets_distinct [OF sz A B ne] show ?thesis
    by simp
qed

lemma relocate_backward_loop_keeps_dead:
  assumes "relocate_backward_loop T h src dst src_index dst_index i n = Inr h'"
    and "h a = None"
    and "\<And>idx. idx < m_count dst \<Longrightarrow> a \<noteq> m_data dst + idx * sizeof T"
  shows "h' a = None"
  using assms
proof (induction n arbitrary: h i)
  case 0
  then show ?case by simp
next
  case (Suc n)
  from Suc.prems(1) obtain d s where
    d: "span_at T dst (dst_index - i) = Inr d" and s: "span_at T src (src_index - i) = Inr s"
    and rest: "relocate_backward_loop T ((h(d := h s))(s := None)) src dst
                 src_index dst_index (i + 1) n = Inr h'"
    by (auto split: sum.splits)
  from d have "dst_index - i < m_count dst" "d = m_data dst + (dst_index - i) * sizeof T"
    by (auto simp: span_at_def split: if_splits)
  with Suc.prems(3) have "a \<noteq> d"
    by blast
  with Suc.prems(2) have "((h(d := h s))(s := None)) a = None"
    by simp
  from Suc.IH [OF rest this Suc.prems(3)] show ?case .
qed

lemma insert_leaves_last_index_dead:
  assumes sz: "sizeof T \<noteq> 0"
    and room: "size_of arr < capacity T arr"
    and idx: "i < size_of arr"
    and dead: "h (data arr + size_of arr * sizeof T) = None"
    and run: "insert' T p (h, arr) i v = Inr (h', arr')"
  shows "size_of arr' = size_of arr + 1 \<and> data arr' = data arr
       \<and> h' (data arr' + size_of arr * sizeof T) = None"
proof -
  let ?n = "size_of arr"
  let ?slot = "data arr + ?n * sizeof T"
  have "unat ?n < unat (capacity T arr)"
    using room by (simp add: word_less_nat_alt)
  then have "unat ?n + unat (1 :: size_t) < 2 ^ 64"
    using unsigned_less [of "capacity T arr", where ?'a = nat] by simp
  then have n1: "unat (?n + 1) = unat ?n + 1"
    by (simp add: unat_add_lem [THEN iffD1])
  then have le: "?n + 1 \<le> capacity T arr"
    using room by (simp add: word_le_nat_alt word_less_nat_alt)
  then have res: "reserve T p (h, arr) (?n + 1) = Inr (h, arr)"
    by simp
  let ?src = "\<lparr>m_data = data arr + i * sizeof T, m_count = ?n - i\<rparr>"
  let ?dst = "\<lparr>m_data = data arr + (?n + 1) * sizeof T, m_count = capacity T arr - (?n + 1)\<rparr>"
  have s1: "subspan T (as_span arr) (bounds\<lparr>start := i\<rparr>) = ?src"
    by (simp add: subspan_def bounds_def as_span_def)
  have s2: "subspan T (as_raw_span T arr) (bounds\<lparr>start := ?n + 1\<rparr>) = ?dst"
    by (simp add: subspan_def bounds_def as_raw_span_def)
  from run res s1 s2 obtain h1 k where
    rb: "relocate_backward T h ?src ?dst = Inr (h1, k)"
    and h': "h' = h1(data arr + i * sizeof T \<mapsto> v)"
    and arr': "arr' = arr\<lparr>m_count' := m_count' arr + 1\<rparr>"
    by (auto simp: insert'_def size_of_def split: sum.splits)
  from rb obtain loop: "relocate_backward_loop T h ?src ?dst (m_count ?src - 1) (m_count ?dst - 1)
       0 (unat (m_count ?src)) = Inr h1"
    by (auto simp: relocate_backward_def Let_def split: sum.splits if_splits)
  have outside: "?slot \<noteq> m_data ?dst + j * sizeof T" if j: "j < m_count ?dst" for j
  proof -
    have cnt: "unat (capacity T arr - (?n + 1)) = unat (capacity T arr) - (unat ?n + 1)"
      using le n1 by (simp add: unat_sub)
    with j have jn: "unat j + unat ?n + 1 < unat (capacity T arr)"
      by (simp add: word_less_nat_alt)
    then have sum: "unat (?n + 1 + j) = unat ?n + 1 + unat j"
      using n1 unsigned_less [of "capacity T arr", where ?'a = nat]
      by (simp add: unat_add_lem [THEN iffD1])
    then have "?n + 1 + j \<le> capacity T arr" "?n \<noteq> ?n + 1 + j"
      using jn by (auto simp: word_le_nat_alt word_unat_eq_iff)
    moreover have "?n \<le> capacity T arr"
      using room by simp
    ultimately have "data arr + ?n * sizeof T \<noteq> data arr + (?n + 1 + j) * sizeof T"
      using sz by (intro slot_distinct)
    then show ?thesis
      by (simp add: algebra_simps)
  qed
  have "h1 ?slot = None"
    using loop dead outside by (rule relocate_backward_loop_keeps_dead)
  moreover have "?slot \<noteq> data arr + i * sizeof T"
    using sz room idx by (intro slot_distinct) auto
  ultimately have "h' ?slot = None"
    using h' by simp
  with arr' show ?thesis
    by (simp add: size_of_def data_def)
qed

section \<open>Array: assignment\<close>

text \<open>
  Claim C4. After \<open>assign(n, x)\<close> the array should hold \<open>n\<close> elements equal to \<open>x\<close>. In an
  \<^verbatim>\<open>Array<int>\<close> with room for four elements that holds the one element 1, \<open>assign(3, 5)\<close>
  leaves 5, 0, 0: when \<open>size < n \<le> capacity\<close> the existing elements are filled with \<open>x\<close>,
  and the extra ones are constructed with no argument. The other two branches do what the
  claim says: \<open>assign(2, 5)\<close> on three elements leaves 5, 5, and \<open>assign(6, 5)\<close>, beyond the
  capacity, rebuilds the array in a new block of 24 bytes with six elements 5.
\<close>

theorem assign_constructs_extras_without_value:
  "map_sum id (\<lambda>s. (snd s, elements int_type s))
     (array_run int_type (Map.empty, Array_default)
        [Reserve 0x1000 4, Append 0 1, Assign 0 3 5])
     = Inr (\<lparr>m_block' = \<lparr>ptr = 0x1000, size' = 16\<rparr>, m_count' = 3\<rparr>,
            [Some 5, Some 0, Some 0])
   \<and> map_sum id (\<lambda>s. (snd s, elements int_type s))
     (array_run int_type (Map.empty, Array_default)
        [Reserve 0x1000 4, Append 0 1, Append 0 2, Append 0 3, Assign 0 2 5])
     = Inr (\<lparr>m_block' = \<lparr>ptr = 0x1000, size' = 16\<rparr>, m_count' = 2\<rparr>, [Some 5, Some 5])
   \<and> map_sum id (\<lambda>s. (snd s, elements int_type s))
     (array_run int_type (Map.empty, Array_default)
        [Reserve 0x1000 4, Append 0 1, Assign 0x2000 6 5])
     = Inr (\<lparr>m_block' = \<lparr>ptr = 0x2000, size' = 24\<rparr>, m_count' = 6\<rparr>,
            [Some 5, Some 5, Some 5, Some 5, Some 5, Some 5])"
  by code_simp

text \<open>
  The same for every array: whenever \<open>size < n \<le> capacity\<close> and \<open>assign(n, x)\<close> returns,
  every element from index \<open>size\<close> up to \<open>n\<close> is the value-initialised object, whatever \<open>x\<close>
  is.
\<close>

lemma construct_loop_cells:
  "k < n \<Longrightarrow> fst (construct_loop T h it n v c) (it + of_nat k * sizeof T) = Some v"
proof (induction n arbitrary: h it k c)
  case 0
  then show ?case by simp
next
  case (Suc n)
  show ?case
  proof (cases k)
    case 0
    have keep: "fst (construct_loop T g q m v d) a = Some v" if "g a = Some v" for g q m d a
      using that by (induction m arbitrary: g q d) auto
    from 0 show ?thesis
      by (simp add: keep)
  next
    case (Suc j)
    with Suc.prems have "j < n" by simp
    then have "fst (construct_loop T (h(it \<mapsto> v)) (it + sizeof T) n v (c + 1))
                 ((it + sizeof T) + of_nat j * sizeof T) = Some v"
      by (rule Suc.IH)
    moreover have "it + of_nat k * sizeof T = (it + sizeof T) + of_nat j * sizeof T"
      using Suc by (simp add: algebra_simps)
    ultimately show ?thesis
      by (simp only: construct_loop.simps)
  qed
qed

lemma assign_extras_value_init:
  assumes fits: "count \<le> capacity T arr" and more: "size_of arr < count"
    and run: "assign T p (h, arr) count x = Inr (h', arr')"
    and i: "unat (size_of arr) \<le> i" "i < unat count"
  shows "h' (data arr + of_nat i * sizeof T) = Some (value_init T)"
proof -
  let ?r = "\<lparr>m_data = data arr + size_of arr * sizeof T, m_count = count - size_of arr\<rparr>"
  obtain h1 n where f: "fill T h (as_span arr) x = (h1, n)"
    by (cases "fill T h (as_span arr) x")
  have sub: "subspan T (as_raw_span T arr) (bounds\<lparr>start := size_of arr, end' := Some count\<rparr>)
           = ?r"
    by (simp add: subspan_def bounds_def as_raw_span_def)
  have nle: "\<not> count \<le> size_of arr"
    using more by simp
  from run fits nle f sub
  have h': "h' = fst (construct T h1 ?r (value_init T))"
    by (simp split: prod.splits)
  have cnt: "unat (count - size_of arr) = unat count - unat (size_of arr)"
    using more by (simp add: unat_sub)
  let ?k = "i - unat (size_of arr)"
  have k: "?k < unat (count - size_of arr)"
    using i cnt by simp
  have "(of_nat i :: size_t) = size_of arr + of_nat ?k"
    using i(1) by (metis le_add_diff_inverse of_nat_add of_nat_unat ucast_id)
  then have addr: "data arr + of_nat i * sizeof T
                 = (data arr + size_of arr * sizeof T) + of_nat ?k * sizeof T"
    by (simp add: algebra_simps)
  show ?thesis
    unfolding h' construct_def addr using construct_loop_cells [OF k] by simp
qed

section \<open>Array: the invariant of the mutators\<close>

text \<open>
  Claim C2. After every call of a mutator, \<open>size() \<le> capacity()\<close> should hold and every
  index below \<open>size()\<close> should denote a live element. Reserve room for four elements and
  append 7: the invariant holds. Then \<open>insert(0, 5)\<close>, with \<open>0 \<le> size()\<close>: the size
  becomes 2 within the capacity of 4, but index 1 holds no object, because the 7 was
  relocated to the last slot of the block (the defect of \<open>insert\<close> shown for claim C3).
\<close>

theorem insert_breaks_liveness_below_size:
  "map_sum id (\<lambda>s. (snd s, array_inv int_type s, elements int_type s))
     (array_run int_type (Map.empty, Array_default) [Reserve 0x1000 4, Append 0 7])
     = Inr (\<lparr>m_block' = \<lparr>ptr = 0x1000, size' = 16\<rparr>, m_count' = 1\<rparr>, True, [Some 7])
   \<and> map_sum id (\<lambda>s. (snd s, array_inv int_type s, elements int_type s))
     (array_run int_type (Map.empty, Array_default) [Reserve 0x1000 4, Append 0 7, Insert 0 0 5])
     = Inr (\<lparr>m_block' = \<lparr>ptr = 0x1000, size' = 16\<rparr>, m_count' = 2\<rparr>, False, [Some 5, None])"
  by code_simp


section \<open>Array: moving and copying\<close>

text \<open>
  Claim C7, the half about moving. Move construction and move assignment never abort; the
  target ends with the block and the size of the source, and the source ends as the empty
  array (a null block and size 0). The allocator has no state to transfer.

  The half about copying has no embedding. \<^verbatim>\<open>Array(Array& other)\<close> delegates to
  \<^verbatim>\<open>Array(other.data(), other.size())\<close> and \<^verbatim>\<open>operator=(const Array&)\<close> calls
  \<^verbatim>\<open>assign(other.data(), other.size())\<close>, but array.hpp declares no constructor and no
  \<open>assign\<close> that takes a pointer and a count: the constructors take a count and constructor
  arguments, an allocator, \<^verbatim>\<open>uninit\<close> or \<^verbatim>\<open>from_range\<close>, and \<open>assign\<close> takes a count and a
  value or one sized range. Neither member can be instantiated, so no program can copy an
  array.
\<close>

lemma destroy_backward_loop_total:
  "n \<le> unat (m_count r) \<Longrightarrow> \<exists>h'. destroy_backward_loop T h r n = Inr h'"
proof (induction n arbitrary: h)
  case 0
  then show ?case by simp
next
  case (Suc i)
  from Suc.prems have lt: "i < unat (m_count r)" by simp
  then have "i < 2 ^ 64"
    using unsigned_less [of "m_count r", where ?'a = nat] by simp
  then have "unat (of_nat i :: size_t) = i"
    by (simp add: unat_of_nat)
  with lt have "(of_nat i :: size_t) < m_count r"
    by (simp add: word_less_nat_alt)
  then have "span_at T r (of_nat i) = Inr (m_data r + of_nat i * sizeof T)"
    by (simp add: span_at_def)
  moreover have "i \<le> unat (m_count r)"
    using lt by simp
  then obtain h' where
    "destroy_backward_loop T (h(m_data r + of_nat i * sizeof T := None)) r i = Inr h'"
    using Suc.IH by blast
  ultimately show ?case by simp
qed

lemma Array_clear_total:
  "\<exists>h'. Array_clear T (h, arr) = Inr (h', arr\<lparr>m_count' := 0\<rparr>)"
proof -
  from destroy_backward_loop_total [of "unat (m_count (as_span arr))" "as_span arr" T h]
  obtain h' where "destroy_backward_loop T h (as_span arr) (unat (m_count (as_span arr))) = Inr h'"
    by auto
  then show ?thesis
    by (simp add: destroy_backward_def)
qed

lemma move_assign_transfers:
  "\<exists>h'. move_assign T (h, arr) other
           = Inr (h', \<lparr>m_block' = m_block' other, m_count' = m_count' other\<rparr>, Array_default)"
proof -
  obtain h1 where c: "Array_clear T (h, arr) = Inr (h1, arr\<lparr>m_count' := 0\<rparr>)"
    using Array_clear_total by blast
  obtain h2 arr2 where d: "Array_deallocate T (h1, arr\<lparr>m_count' := 0\<rparr>) = (h2, arr2)"
    by (cases "Array_deallocate T (h1, arr\<lparr>m_count' := 0\<rparr>)")
  have "arr2\<lparr>m_block' := m_block' other, m_count' := m_count' other\<rparr>
          = \<lparr>m_block' = m_block' other, m_count' = m_count' other\<rparr>"
    by simp
  moreover have "other\<lparr>m_block' := empty_block, m_count' := 0\<rparr> = Array_default"
    by (simp add: Array_default_def)
  ultimately show ?thesis
    using c d by (simp add: move_assign_def)
qed

lemma move_construct_transfers:
  "\<exists>h'. move_construct T h other
           = Inr (h', \<lparr>m_block' = m_block' other, m_count' = m_count' other\<rparr>, Array_default)"
  unfolding move_construct_def by (rule move_assign_transfers)

text \<open>
  A move assignment of an array to itself never aborts either, and leaves the array
  without elements: empty with a null block if it had a block, unchanged but for the size
  of 0 if it had none.
\<close>

lemma move_assign_self_empties:
  "\<exists>h'. move_assign_self T (h, arr)
           = Inr (h', if data arr \<noteq> 0 then Array_default else arr\<lparr>m_count' := 0\<rparr>)"
proof -
  obtain h1 where c: "Array_clear T (h, arr) = Inr (h1, arr\<lparr>m_count' := 0\<rparr>)"
    using Array_clear_total by blast
  show ?thesis
    using c by (simp add: move_assign_self_def Array_default_def data_def Let_def)
qed

end
